theory Spec2Isabelle
  imports Complex_Main
begin

section \<open>Data model (parser.h)\<close>

text \<open>
  The error kinds of \<^verbatim>\<open>FuncParseExcept::ErrorType\<close>, in the order of the enum, and the
  exception itself: the kind and the zero-based offset it was constructed with.  The
  readable message is derived from these two fields only and is not modelled.
\<close>

datatype ErrorType =
    NoInput
  | UnexpectedSymbol
  | UnknownSymbol
  | OpenBraces
  | OperatorExpected
  | EmptyFunction
  | DanglingOperator
  | InvalidVariableIndex
  | UnknownError

datatype FuncParseExcept = FuncParseExcept (m_foundError: ErrorType) (m_errorOffset: nat)

text \<open>
  \<^verbatim>\<open>Function::Name\<close> and \<^verbatim>\<open>Operator::Name\<close>.  The constructors carry a suffix because
  \<open>sin\<close>, \<open>exp\<close>, \<open>abs\<close>, \<open>div\<close>, ... are constants of HOL.
\<close>

datatype FunctionName =
    sin_fn | cos_fn | tan_fn | sinh_fn | cosh_fn | tanh_fn | exp_fn | log_fn | abs_fn
  | pos_fn | ang_fn | re_fn | im_fn

datatype OperatorName = add_op | sub_op | mul_op | div_op | pow_op

text \<open>
  The four node kinds of \<^verbatim>\<open>FuncElem\<close>.  A \<^verbatim>\<open>std::unique_ptr<FuncElem>\<close> child is an
  \<open>option\<close>: \<open>None\<close> is the null pointer an operator holds between \<^verbatim>\<open>ScanOperator\<close> and the
  reduction pass that fills it in.  \<^verbatim>\<open>double\<close> is idealised as \<open>real\<close> and
  \<^verbatim>\<open>std::complex<double>\<close> as \<open>complex\<close>: rounding, infinities and NaN are not modelled.
\<close>

datatype FuncElem =
    Variable int
  | Constant complex
  | Function FunctionName "FuncElem option"
  | Operator OperatorName int "FuncElem option" "FuncElem option"

datatype Precision = Single | Double | Extended

record FunctionParser =
  m_usedVariables :: "int set"
  m_supportedPrecision :: Precision
  m_inputFunc :: string
  m_parsedFunc :: "FuncElem option"

text \<open>
  A member function that may throw and that mutates the parser returns the exception or
  its value together with the parser as the throw or the return leaves it.
\<close>

type_synonym 'a result = "(FuncParseExcept + 'a) \<times> FunctionParser"

section \<open>Character classifier and leaf scanners (parser.cpp)\<close>

text \<open>
  \<^verbatim>\<open>func[j]\<close> on the buffer of a \<^verbatim>\<open>std::string\<close>: the characters, then the terminating
  NUL at index \<open>length func\<close>.  A read further out is outside the buffer in C++; it can only
  happen in the brace matcher, whose bound may exceed the buffer after a function name,
  and is modelled as reading NUL as well.
\<close>

definition char_at :: "string \<Rightarrow> nat \<Rightarrow> char" where
  "char_at func j = (if j < length func then func ! j else CHR 0x00)"

definition code :: "char \<Rightarrow> nat" where
  "code ch = of_char ch"

definition IsLetter :: "char \<Rightarrow> bool" where
  "IsLetter ch \<longleftrightarrow>
     (code ch \<ge> code CHR ''a'' \<and> code ch \<le> code CHR ''z'') \<or>
     (code ch \<ge> code CHR ''A'' \<and> code ch \<le> code CHR ''Z'')"

definition IsDigit :: "char \<Rightarrow> bool" where
  "IsDigit ch \<longleftrightarrow> code ch \<ge> code CHR ''0'' \<and> code ch \<le> code CHR ''9''"

definition IsNamePart :: "char \<Rightarrow> bool" where
  "IsNamePart ch \<longleftrightarrow> IsLetter ch \<or> IsDigit ch \<or> CHR ''_'' = ch"

definition IsNumberPart :: "char \<Rightarrow> bool" where
  "IsNumberPart ch \<longleftrightarrow> IsDigit ch \<or> ch = CHR ''.'' \<or> ch = CHR ''-''"

text \<open>\<^verbatim>\<open>ch - '0'\<close>, used on digits only.\<close>

definition digit_value :: "char \<Rightarrow> nat" where
  "digit_value ch = code ch - code CHR ''0''"

text \<open>
  \<^verbatim>\<open>CountBetweenBraces(func, offset, len)\<close>.  The loop starts at \<open>offset + 1\<close> with the
  counter at 1 and returns as soon as the counter is back at 0, so the counter is positive
  whenever it is decremented and the unsigned decrement never wraps.
\<close>

function CountBetweenBraces_loop :: "string \<Rightarrow> nat \<Rightarrow> nat \<Rightarrow> nat \<Rightarrow> nat \<Rightarrow> FuncParseExcept + nat" where
  "CountBetweenBraces_loop func offset len braceCntr j =
     (if j < offset + len then
        (if CHR ''('' = char_at func j then
           CountBetweenBraces_loop func offset len (braceCntr + 1) (j + 1)
         else if CHR '')'' = char_at func j then
           (if 0 = braceCntr - 1 then Inr (j - offset)
            else CountBetweenBraces_loop func offset len (braceCntr - 1) (j + 1))
         else CountBetweenBraces_loop func offset len braceCntr (j + 1))
      else Inl (FuncParseExcept OpenBraces offset))"
  by pat_completeness auto
termination
  by (relation "measure (\<lambda>(func, offset, len, braceCntr, j). offset + len - j)") auto

declare CountBetweenBraces_loop.simps [simp del]

definition CountBetweenBraces :: "string \<Rightarrow> nat \<Rightarrow> nat \<Rightarrow> FuncParseExcept + nat" where
  "CountBetweenBraces func offset len = CountBetweenBraces_loop func offset len 1 (offset + 1)"

text \<open>
  \<^verbatim>\<open>CountNameLength(func + offset, len)\<close>: the pointer \<open>func + offset\<close> is the pair of the
  buffer and the base offset.
\<close>

function CountNameLength_loop :: "string \<Rightarrow> nat \<Rightarrow> nat \<Rightarrow> nat \<Rightarrow> nat" where
  "CountNameLength_loop func offset len i =
     (if i < len then
        (if \<not> IsNamePart (char_at func (offset + i)) then i
         else CountNameLength_loop func offset len (i + 1))
      else len)"
  by pat_completeness auto
termination
  by (relation "measure (\<lambda>(func, offset, len, i). len - i)") auto

declare CountNameLength_loop.simps [simp del]

definition CountNameLength :: "string \<Rightarrow> nat \<Rightarrow> nat \<Rightarrow> nat" where
  "CountNameLength func offset len = CountNameLength_loop func offset len 0"

text \<open>
  \<^verbatim>\<open>ScanNumber(func, offset)\<close>.  The first loop reads the integer digits; the second one is
  entered after a \<open>.\<close> and pre-increments the offset before every test.  Both stop at the
  terminating NUL at the latest.
\<close>

lemma IsDigit_char_at: "IsDigit (char_at func offset) \<Longrightarrow> offset < length func"
  by (auto simp: IsDigit_def char_at_def code_def split: if_splits)

function ScanNumber_int :: "string \<Rightarrow> nat \<Rightarrow> real \<Rightarrow> bool \<Rightarrow> nat \<times> real \<times> bool" where
  "ScanNumber_int func offset num digitPresent =
     (if IsDigit (char_at func offset) then
        ScanNumber_int func (offset + 1) (10 * num + real (digit_value (char_at func offset))) True
      else (offset, num, digitPresent))"
  by pat_completeness auto
termination
  by (relation "measure (\<lambda>(func, offset, num, digitPresent). length func - offset)")
     (auto dest: IsDigit_char_at)

declare ScanNumber_int.simps [simp del]

function ScanNumber_frac :: "string \<Rightarrow> nat \<Rightarrow> real \<Rightarrow> real \<Rightarrow> bool \<Rightarrow> nat \<times> real \<times> bool" where
  "ScanNumber_frac func offset num fractionalDiv digitPresent =
     (if IsDigit (char_at func (offset + 1)) then
        ScanNumber_frac func (offset + 1)
          (num + real (digit_value (char_at func (offset + 1))) / (fractionalDiv / 10))
          (fractionalDiv / 10) True
      else (offset + 1, num, digitPresent))"
  by pat_completeness auto
termination
  by (relation "measure (\<lambda>(func, offset, num, fractionalDiv, digitPresent). length func - offset)")
     (auto dest: IsDigit_char_at)

declare ScanNumber_frac.simps [simp del]

definition ScanNumber :: "string \<Rightarrow> nat \<Rightarrow> FuncParseExcept + (real \<times> nat)" where
  "ScanNumber func offset =
     (let firstIdx = offset;
          offset1 = (if char_at func firstIdx = CHR ''-'' then offset + 1 else offset);
          (offset2, num2, digitPresent2) = ScanNumber_int func offset1 0 False;
          (offset3, num3, digitPresent3) =
             (if char_at func offset2 = CHR ''.'' then ScanNumber_frac func offset2 num2 1 digitPresent2
              else (offset2, num2, digitPresent2))
      in if \<not> digitPresent3 then Inl (FuncParseExcept UnexpectedSymbol firstIdx)
         else Inr (if char_at func firstIdx = CHR ''-'' then - num3 else num3, offset3))"


section \<open>Precision tracker, operand and operator scanners\<close>

text \<open>
  \<^verbatim>\<open>g_FunctionNames\<close> and the enumerators of \<^verbatim>\<open>Function::Name\<close> the indices are cast to,
  in the same order.
\<close>

definition g_FunctionNames :: "string list" where
  "g_FunctionNames =
     [''sin'', ''cos'', ''tan'', ''sinh'', ''cosh'', ''tanh'', ''exp'', ''log'', ''abs'',
      ''pos'', ''ang'', ''re'', ''im'']"

definition Function_Name_of_index :: "FunctionName list" where
  "Function_Name_of_index =
     [sin_fn, cos_fn, tan_fn, sinh_fn, cosh_fn, tanh_fn, exp_fn, log_fn, abs_fn,
      pos_fn, ang_fn, re_fn, im_fn]"

text \<open>The switch inside the loop of \<^verbatim>\<open>GetFunctionNameApplyPrecision\<close>.\<close>

fun ApplyPrecision :: "FunctionName \<Rightarrow> FunctionParser \<Rightarrow> FunctionParser" where
  "ApplyPrecision n st =
     (if m_supportedPrecision st \<noteq> Single then
        (case n of
           pos_fn \<Rightarrow> st
         | re_fn \<Rightarrow> st
         | im_fn \<Rightarrow> st
         | _ \<Rightarrow> st\<lparr>m_supportedPrecision := Single\<rparr>)
      else st)"

function GetFunctionNameApplyPrecision_loop ::
    "string \<Rightarrow> nat \<Rightarrow> nat \<Rightarrow> FunctionParser \<Rightarrow> FunctionName result" where
  "GetFunctionNameApplyPrecision_loop name offset i st =
     (if i < length g_FunctionNames then
        (if g_FunctionNames ! i = name then
           (let n = Function_Name_of_index ! i in (Inr n, ApplyPrecision n st))
         else GetFunctionNameApplyPrecision_loop name offset (i + 1) st)
      else (Inl (FuncParseExcept UnknownSymbol offset), st))"
  by pat_completeness auto
termination
  by (relation "measure (\<lambda>(name, offset, i, st). length g_FunctionNames - i)") auto

declare GetFunctionNameApplyPrecision_loop.simps [simp del]

definition GetFunctionNameApplyPrecision ::
    "string \<Rightarrow> nat \<Rightarrow> FunctionParser \<Rightarrow> FunctionName result" where
  "GetFunctionNameApplyPrecision name offset st = GetFunctionNameApplyPrecision_loop name offset 0 st"

text \<open>
  \<^verbatim>\<open>size_t\<close> subtraction, taken as 64 bits wide: \<^verbatim>\<open>ScanEvaluated\<close> subtracts the absolute
  offset from the remaining length, which wraps around whenever the offset is the larger.
\<close>

definition size_t_sub :: "nat \<Rightarrow> nat \<Rightarrow> nat" where
  "size_t_sub a b = nat ((int a - int b) mod 2 ^ 64)"

text \<open>
  The loop that reads the decimal suffix of a \<open>z\<close> name.  \<open>index\<close> is an \<^verbatim>\<open>int\<close> in the
  source; the loop runs over at most nine digits, so the value stays below \<open>10^9\<close>.
\<close>

function VariableIndex_loop :: "string \<Rightarrow> nat \<Rightarrow> int \<Rightarrow> int option" where
  "VariableIndex_loop name i index =
     (if i < length name then
        (if \<not> IsDigit (char_at name i) then None
         else VariableIndex_loop name (i + 1) (index * 10 + int (digit_value (char_at name i))))
      else Some index)"
  by pat_completeness auto
termination
  by (relation "measure (\<lambda>(name, i, index). length name - i)") auto

declare VariableIndex_loop.simps [simp del]

text \<open>
  The branch of \<^verbatim>\<open>ScanEvaluated\<close> for a name that is not followed by \<open>(\<close>; \<open>offset\<close> is
  already past the name.  \<open>name[0]\<close> of an empty \<^verbatim>\<open>std::string\<close> is its terminator.
\<close>

definition ScanName :: "string \<Rightarrow> nat \<Rightarrow> FunctionParser \<Rightarrow> (FuncElem \<times> nat) result" where
  "ScanName name offset st =
     (if name = ''i'' then (Inr (Constant (Complex 0 1), offset), st)
      else if name = ''c'' then
        (Inr (Variable (- 1), offset), st\<lparr>m_usedVariables := insert (- 1) (m_usedVariables st)\<rparr>)
      else if char_at name 0 = CHR ''z'' then
        (if (length name > 1 \<and> char_at name 1 = CHR ''0'') \<or> length name > 10 then
           (Inl (FuncParseExcept UnexpectedSymbol (offset - length name)), st)
         else
           (case VariableIndex_loop name 1 0 of
              None \<Rightarrow> (Inl (FuncParseExcept UnexpectedSymbol (offset - length name)), st)
            | Some index \<Rightarrow>
                (Inr (Variable index, offset), st\<lparr>m_usedVariables := insert index (m_usedVariables st)\<rparr>)))
      else (Inl (FuncParseExcept UnexpectedSymbol (offset + 1 - length name)), st))"

text \<open>\<^verbatim>\<open>ScanOperator\<close>: a fresh operator node with both children null.\<close>

definition ScanOperator :: "string \<Rightarrow> nat \<Rightarrow> FuncParseExcept + (FuncElem \<times> nat)" where
  "ScanOperator func offset =
     (let ch = char_at func offset in
      if ch = CHR ''+'' then Inr (Operator add_op 0 None None, offset + 1)
      else if ch = CHR ''-'' then Inr (Operator sub_op 0 None None, offset + 1)
      else if ch = CHR ''*'' then Inr (Operator mul_op 1 None None, offset + 1)
      else if ch = CHR ''/'' then Inr (Operator div_op 1 None None, offset + 1)
      else if ch = CHR ''^'' then Inr (Operator pow_op 2 None None, offset + 1)
      else Inl (FuncParseExcept OperatorExpected (offset + 1 - 1)))"

section \<open>Precedence reducer\<close>

text \<open>
  The test of the compaction pass, \<^verbatim>\<open>type == Operator && precedence == precedence\<close>, and the
  two assignments to \<^verbatim>\<open>op->params\<close>, which replace whatever children the node had.
\<close>

fun IsOperatorOf :: "int \<Rightarrow> FuncElem \<Rightarrow> bool" where
  "IsOperatorOf precedence (Operator name p l r) = (p = precedence)"
| "IsOperatorOf precedence _ = False"

fun SetParams :: "FuncElem \<Rightarrow> FuncElem \<Rightarrow> FuncElem \<Rightarrow> FuncElem" where
  "SetParams (Operator name p l r) lhs rhs = Operator name p (Some lhs) (Some rhs)"
| "SetParams elem lhs rhs = elem"

text \<open>
  One pass of the \<open>while\<close> loop over the token vector.  A slot whose pointer has been moved
  out keeps its old content here; the loop never reads such a slot again, as it reads at
  \<open>readIdx\<close> and \<open>readIdx + 1\<close>, writes below \<open>storeIdx \<le> readIdx\<close>, and the next pass is
  confined to the first \<open>storeIdx\<close> slots.
\<close>

function ReducePass ::
    "int \<Rightarrow> FuncElem list \<Rightarrow> nat \<Rightarrow> nat \<Rightarrow> nat \<Rightarrow> FuncParseExcept + (FuncElem list \<times> nat)" where
  "ReducePass precedence tokenized tokenCount storeIdx readIdx =
     (if readIdx < tokenCount then
        (if IsOperatorOf precedence (tokenized ! readIdx) then
           (if \<not> (readIdx + 1 < tokenCount \<and> storeIdx > 0) then Inl (FuncParseExcept EmptyFunction 0)
            else
              ReducePass precedence
                (tokenized[storeIdx - 1 :=
                   SetParams (tokenized ! readIdx) (tokenized ! (storeIdx - 1)) (tokenized ! (readIdx + 1))])
                tokenCount storeIdx (readIdx + 2))
         else
           ReducePass precedence
             (if storeIdx \<noteq> readIdx then tokenized[storeIdx := tokenized ! readIdx] else tokenized)
             tokenCount (storeIdx + 1) (readIdx + 1))
      else Inr (tokenized, storeIdx))"
  by pat_completeness auto
termination
  by (relation "measure (\<lambda>(precedence, tokenized, tokenCount, storeIdx, readIdx). tokenCount - readIdx)")
     auto

declare ReducePass.simps [simp del]

text \<open>The \<open>for\<close> loop over the precedence tiers, from 2 down to 0.\<close>

function ReduceLoop ::
    "int \<Rightarrow> FuncElem list \<Rightarrow> nat \<Rightarrow> FuncParseExcept + (FuncElem list \<times> nat)" where
  "ReduceLoop precedence tokenized tokenCount =
     (if precedence \<ge> 0 then
        (case ReducePass precedence tokenized tokenCount 0 0 of
           Inl e \<Rightarrow> Inl e
         | Inr (tokenized', storeIdx) \<Rightarrow> ReduceLoop (precedence - 1) tokenized' storeIdx)
      else Inr (tokenized, tokenCount))"
  by pat_completeness auto
termination
  by (relation "measure (\<lambda>(precedence, tokenized, tokenCount). nat (precedence + 1))") auto

declare ReduceLoop.simps [simp del]

text \<open>
  The part of \<^verbatim>\<open>ParsePart\<close> after the token loop (lines 284 to 321 of parser.cpp): the two
  checks on the outcome of the loop, the three passes, and the check that one token is left.
\<close>

definition Reduce :: "nat \<Rightarrow> nat \<Rightarrow> FuncElem list \<Rightarrow> bool \<Rightarrow> FuncParseExcept + FuncElem" where
  "Reduce offset len tokenized scanEvaluated =
     (if scanEvaluated then Inl (FuncParseExcept DanglingOperator (offset + len - 1))
      else if tokenized = [] then Inl (FuncParseExcept NoInput 0)
      else
        (case ReduceLoop 2 tokenized (length tokenized) of
           Inl e \<Rightarrow> Inl e
         | Inr (tokenized', tokenCount) \<Rightarrow>
             if 1 \<noteq> tokenCount then Inl (FuncParseExcept UnknownError 0)
             else Inr (tokenized' ! 0)))"

section \<open>Operand scanner and token loop\<close>

text \<open>
  Facts for the termination of the mutual recursion: the brace matcher returns a length
  below the one it was given, and every scanner that succeeds moves the cursor forward.
\<close>

lemma CountBetweenBraces_loop_bound:
  "CountBetweenBraces_loop func offset len braceCntr j = Inr n \<Longrightarrow> offset < j \<Longrightarrow> 0 < n \<and> n < len"
proof (induction func offset len braceCntr j rule: CountBetweenBraces_loop.induct)
  case (1 func offset len braceCntr j)
  from "1.prems"(1) have "j < offset + len"
    by (subst (asm) CountBetweenBraces_loop.simps) (simp split: if_splits)
  with 1 show ?case
    by (subst (asm) (4) CountBetweenBraces_loop.simps) (auto split: if_splits)
qed

lemma CountBetweenBraces_bound:
  "CountBetweenBraces func offset len = Inr n \<Longrightarrow> 0 < n \<and> n < len"
  unfolding CountBetweenBraces_def by (rule CountBetweenBraces_loop_bound) auto


lemma ScanNumber_int_progress:
  "ScanNumber_int func offset num digitPresent = (offset', num', digitPresent') \<Longrightarrow>
   offset \<le> offset' \<and> (digitPresent' \<longrightarrow> digitPresent \<or> offset < offset')"
proof (induction func offset num digitPresent rule: ScanNumber_int.induct)
  case (1 func offset num digitPresent)
  show ?case
  proof (cases "IsDigit (char_at func offset)")
    case True
    with "1.prems" have "ScanNumber_int func (offset + 1)
        (10 * num + real (digit_value (char_at func offset))) True = (offset', num', digitPresent')"
      by (subst (asm) ScanNumber_int.simps) simp
    from "1.IH" [OF True this] show ?thesis by simp
  next
    case False
    with "1.prems" show ?thesis
      by (subst (asm) ScanNumber_int.simps) simp
  qed
qed

lemma ScanNumber_frac_progress:
  "ScanNumber_frac func offset num fractionalDiv digitPresent = (offset', num', digitPresent') \<Longrightarrow>
   offset < offset'"
proof (induction func offset num fractionalDiv digitPresent rule: ScanNumber_frac.induct)
  case (1 func offset num fractionalDiv digitPresent)
  show ?case
  proof (cases "IsDigit (char_at func (offset + 1))")
    case True
    with "1.prems" have "ScanNumber_frac func (offset + 1)
        (num + real (digit_value (char_at func (offset + 1))) / (fractionalDiv / 10))
        (fractionalDiv / 10) True = (offset', num', digitPresent')"
      by (subst (asm) ScanNumber_frac.simps) simp
    from "1.IH" [OF True this] show ?thesis by simp
  next
    case False
    with "1.prems" show ?thesis
      by (subst (asm) ScanNumber_frac.simps) simp
  qed
qed

lemma ScanNumber_progress:
  assumes "ScanNumber func offset = Inr (num, offset')"
  shows "offset < offset'"
proof -
  define offset1 where "offset1 = (if char_at func offset = CHR ''-'' then offset + 1 else offset)"
  obtain offset2 num2 digitPresent2 where int:
    "ScanNumber_int func offset1 0 False = (offset2, num2, digitPresent2)"
    by (metis prod_cases3)
  obtain offset3 num3 digitPresent3 where frac:
    "(if char_at func offset2 = CHR ''.'' then ScanNumber_frac func offset2 num2 1 digitPresent2
      else (offset2, num2, digitPresent2)) = (offset3, num3, digitPresent3)"
    by (metis prod_cases3)
  from assms int frac have res: "digitPresent3" "offset' = offset3"
    by (auto simp: ScanNumber_def Let_def offset1_def split: if_splits)
  from ScanNumber_int_progress [OF int]
  have le: "offset1 \<le> offset2" and dp: "digitPresent2 \<Longrightarrow> offset1 < offset2" by auto
  have "offset \<le> offset1" by (simp add: offset1_def)
  show ?thesis
  proof (cases "char_at func offset2 = CHR ''.''")
    case True
    with frac have "offset2 < offset3" by (auto dest: ScanNumber_frac_progress)
    with le \<open>offset \<le> offset1\<close> res show ?thesis by simp
  next
    case False
    with frac res dp le \<open>offset \<le> offset1\<close> show ?thesis by auto
  qed
qed

lemma ScanName_progress:
  "ScanName name offset st = (Inr (elem, offset'), st') \<Longrightarrow> offset' = offset \<and> name \<noteq> []"
  by (auto simp: ScanName_def char_at_def split: if_splits option.splits)

text \<open>
  \<^verbatim>\<open>ScanEvaluated\<close> and \<^verbatim>\<open>ParsePart\<close> call each other; \<open>Tokenize\<close> is the \<open>for\<close> loop of
  \<^verbatim>\<open>ParsePart\<close> that fills the token vector, with the cursor \<open>i\<close> and the flag
  \<open>scanEvaluated\<close> as loop state.  An exception leaves the parser as the scanners have
  changed it so far.  In \<^verbatim>\<open>ScanEvaluated\<close> the argument \<open>len\<close> is what \<^verbatim>\<open>ParsePart\<close> passes, the
  number of characters from the cursor to the end of the span; the call for the argument of
  a function passes it on unchanged although the cursor has moved.  \<^verbatim>\<open>ParsePart\<close> also tests
  its pointer argument for null, which the buffer of a \<^verbatim>\<open>std::string\<close> never is.
\<close>

function ScanEvaluated :: "string \<Rightarrow> nat \<Rightarrow> nat \<Rightarrow> FunctionParser \<Rightarrow> (FuncElem \<times> nat) result"
  and ParsePart :: "string \<Rightarrow> nat \<Rightarrow> nat \<Rightarrow> FunctionParser \<Rightarrow> FuncElem result"
  and Tokenize ::
    "string \<Rightarrow> nat \<Rightarrow> nat \<Rightarrow> nat \<Rightarrow> bool \<Rightarrow> FuncElem list \<Rightarrow> FunctionParser \<Rightarrow> (FuncElem list \<times> bool) result"
where
  "ScanEvaluated func offset len st =
     (if CHR ''('' = char_at func offset then
        (case CountBetweenBraces func (offset + 1) len of
           Inl e \<Rightarrow> (Inl e, st)
         | Inr bracedLength \<Rightarrow>
             (case ParsePart func (offset + 1) bracedLength st of
                (Inl e, st') \<Rightarrow> (Inl e, st')
              | (Inr funcElem, st') \<Rightarrow> (Inr (funcElem, offset + 1 + bracedLength + 1), st')))
      else if IsLetter (char_at func offset) then
        (let nameLength = CountNameLength func offset (size_t_sub len offset);
             name = take nameLength (drop offset func);
             offset' = offset + nameLength
         in if char_at func offset' = CHR ''('' then
              (case GetFunctionNameApplyPrecision name offset' st of
                 (Inl e, st') \<Rightarrow> (Inl e, st')
               | (Inr n, st') \<Rightarrow>
                   (case ScanEvaluated func offset' len st' of
                      (Inl e, st'') \<Rightarrow> (Inl e, st'')
                    | (Inr (param, offset''), st'') \<Rightarrow> (Inr (Function n (Some param), offset''), st'')))
            else ScanName name offset' st)
      else if IsNumberPart (char_at func offset) then
        (case ScanNumber func offset of
           Inl e \<Rightarrow> (Inl e, st)
         | Inr (num, offset') \<Rightarrow> (Inr (Constant (Complex num 0), offset'), st))
      else (Inl (FuncParseExcept UnknownSymbol offset), st))"
| "ParsePart func offset len st =
     (if len = 0 then (Inl (FuncParseExcept NoInput 0), st)
      else
        (case Tokenize func offset len offset True [] st of
           (Inl e, st') \<Rightarrow> (Inl e, st')
         | (Inr (tokenized, scanEvaluated), st') \<Rightarrow> (Reduce offset len tokenized scanEvaluated, st')))"
| "Tokenize func offset len i scanEvaluated tokenized st =
     (if i < offset + len then
        (if scanEvaluated then
           (case ScanEvaluated func i (len + offset - i) st of
              (Inl e, st') \<Rightarrow> (Inl e, st')
            | (Inr (elem, i'), st') \<Rightarrow>
                Tokenize func offset len i' (\<not> scanEvaluated) (tokenized @ [elem]) st')
         else
           (case ScanOperator func i of
              Inl e \<Rightarrow> (Inl e, st)
            | Inr (elem, i') \<Rightarrow> Tokenize func offset len i' (\<not> scanEvaluated) (tokenized @ [elem]) st))
      else (Inr (tokenized, scanEvaluated), st))"
  by pat_completeness auto


lemma ScanEvaluated_progress_dom:
  "ScanEvaluated_ParsePart_Tokenize_dom (Inl (func, offset, len, st)) \<Longrightarrow>
   \<forall>elem i' st'. ScanEvaluated func offset len st = (Inr (elem, i'), st') \<longrightarrow> offset < i'"
proof (induct func offset len st
    rule: ScanEvaluated_ParsePart_Tokenize.pinduct(1) [where Q = "\<lambda>_ _ _ _. True" and R = "\<lambda>_ _ _ _ _ _ _. True"])
  case (1 func offset len st)
  note dom = 1(1) and IH = 1(3)
  show ?case
  proof (intro allI impI)
    fix elem i' st'
    assume res: "ScanEvaluated func offset len st = (Inr (elem, i'), st')"
    note eq = res [unfolded ScanEvaluated.psimps [OF dom]]
    show "offset < i'"
    proof (cases "CHR ''('' = char_at func offset")
      case True
      with eq show ?thesis
        by (auto split: sum.splits prod.splits)
    next
      case nparen: False
      show ?thesis
      proof (cases "IsLetter (char_at func offset)")
        case letter: True
        define nameLength where "nameLength = CountNameLength func offset (size_t_sub len offset)"
        define name where "name = take nameLength (drop offset func)"
        show ?thesis
        proof (cases "char_at func (offset + nameLength) = CHR ''(''")
          case True
          obtain r st1 where g: "GetFunctionNameApplyPrecision name (offset + nameLength) st = (r, st1)"
            by (cases "GetFunctionNameApplyPrecision name (offset + nameLength) st")
          with eq nparen letter True obtain n where r: "r = Inr n"
            by (cases r) (auto simp: Let_def nameLength_def name_def)
          from eq nparen letter True g r obtain param where
            "ScanEvaluated func (offset + nameLength) len st1 = (Inr (param, i'), st')"
            by (auto simp: Let_def nameLength_def name_def split: sum.splits prod.splits)
          moreover have "\<forall>elem i' st'. ScanEvaluated func (offset + nameLength) len st1 = (Inr (elem, i'), st')
              \<longrightarrow> offset + nameLength < i'"
            using IH [OF nparen letter nameLength_def name_def refl True g [symmetric] r] .
          ultimately show ?thesis by fastforce
        next
          case False
          with eq nparen letter have "ScanName name (offset + nameLength) st = (Inr (elem, i'), st')"
            by (simp add: Let_def nameLength_def name_def)
          from ScanName_progress [OF this] have "i' = offset + nameLength" "name \<noteq> []" by auto
          then show ?thesis by (auto simp: name_def)
        qed
      next
        case False
        with eq nparen show ?thesis
          by (auto split: if_splits sum.splits dest: ScanNumber_progress)
      qed
    qed
  qed
qed simp_all

text \<open>
  The recursion ends: a parenthesised span is shorter than the span around it, a function
  name is followed by \<open>(\<close>, and the token loop moves forward with every token.
\<close>

termination ScanEvaluated
proof (relation "measure (\<lambda>x. case x of
      Inl (func, offset, len, st) \<Rightarrow> 4 * len + (if CHR ''('' = char_at func offset then 0 else 1)
    | Inr (Inl (func, offset, len, st)) \<Rightarrow> 4 * len + 3
    | Inr (Inr (func, offset, len, i, scanEvaluated, tokenized, st)) \<Rightarrow> 4 * (offset + len - i) + 2)",
    goal_cases)
  case 1
  show ?case by simp
next
  case (2 func offset len st bracedLength)
  then show ?case by (auto dest: CountBetweenBraces_bound)
next
  case 3
  then show ?case by simp
next
  case 4
  then show ?case by simp
next
  case 5
  then show ?case by (simp add: add.commute)
next
  case (6 func offset len i scanEvaluated tokenized st x y b xa ya)
  then have "i < ya" using ScanEvaluated_progress_dom by (metis)
  with 6 show ?case by simp
next
  case 7
  then show ?case by (auto simp: ScanOperator_def Let_def split: if_splits)
qed

declare ScanEvaluated.simps [simp del] ParsePart.simps [simp del] Tokenize.simps [simp del]


section \<open>Top-level entry points\<close>

text \<open>The default constructor and \<^verbatim>\<open>Clear\<close>.\<close>

definition FunctionParser_ctor :: FunctionParser where
  "FunctionParser_ctor =
     \<lparr>m_usedVariables = {}, m_supportedPrecision = Extended, m_inputFunc = [], m_parsedFunc = None\<rparr>"

definition Clear :: "FunctionParser \<Rightarrow> FunctionParser" where
  "Clear st = st\<lparr>m_inputFunc := [], m_parsedFunc := None, m_usedVariables := {},
                 m_supportedPrecision := Extended\<rparr>"

text \<open>\<^verbatim>\<open>std::isspace\<close> in the default C locale: space, and the controls from tab to carriage return.\<close>

definition isspace :: "char \<Rightarrow> bool" where
  "isspace ch \<longleftrightarrow> code ch = 32 \<or> (9 \<le> code ch \<and> code ch \<le> 13)"

text \<open>
  \<^verbatim>\<open>Parse\<close>.  The argument is a C string: it ends at its first NUL, and the first loop
  copies its characters that are not white space (\<open>strip_whitespace\<close>).  The result is the
  exception thrown, if any, and the parser afterwards; \<open>m_inputFunc\<close> and \<open>m_parsedFunc\<close>
  are assigned only when \<^verbatim>\<open>ParsePart\<close> has returned.
\<close>

definition strip_whitespace :: "string \<Rightarrow> string" where
  "strip_whitespace function =
     filter (\<lambda>ch. \<not> isspace ch) (takeWhile (\<lambda>ch. ch \<noteq> CHR 0x00) function)"

definition Parse :: "string \<Rightarrow> FunctionParser \<Rightarrow> FuncParseExcept option \<times> FunctionParser" where
  "Parse function st =
     (let st0 = Clear st;
          input = strip_whitespace function
      in case ParsePart input 0 (length input) st0 of
           (Inl e, st1) \<Rightarrow> (Some e, st1)
         | (Inr output, st1) \<Rightarrow> (None, st1\<lparr>m_inputFunc := input, m_parsedFunc := Some output\<rparr>))"

text \<open>The accessors.\<close>

definition PseudoCode :: "FunctionParser \<Rightarrow> FuncElem option" where
  "PseudoCode st = m_parsedFunc st"

definition UsedVariables :: "FunctionParser \<Rightarrow> int set" where
  "UsedVariables st = m_usedVariables st"

definition SupportedPrecision :: "FunctionParser \<Rightarrow> Precision" where
  "SupportedPrecision st = m_supportedPrecision st"


section \<open>Numeric helpers and the generic evaluator (parser.h)\<close>

text \<open>
  The two overload sets of namespace \<^verbatim>\<open>mth\<close>: the one for \<^verbatim>\<open>std::complex<T>\<close> and the one for
  a plain \<open>T\<close>, read at \<open>T = double\<close>.  \<^verbatim>\<open>std::atan2\<close> belongs to the C++ library and is a
  parameter.
\<close>

definition pos_complex :: "complex \<Rightarrow> complex" where
  "pos_complex t = Complex \<bar>Re t\<bar> \<bar>Im t\<bar>"

definition pos_T :: "real \<Rightarrow> real" where
  "pos_T t = \<bar>t\<bar>"

definition ang_complex :: "(real \<Rightarrow> real \<Rightarrow> real) \<Rightarrow> complex \<Rightarrow> complex" where
  "ang_complex std_atan2 t = Complex (std_atan2 (Im t) (Re t)) 0"

definition ang_T :: "real \<Rightarrow> real" where
  "ang_T t = 0"

definition re_complex :: "complex \<Rightarrow> complex" where
  "re_complex t = Complex \<bar>Re t\<bar> 0"

definition re_T :: "real \<Rightarrow> real" where
  "re_T t = t"

definition im_complex :: "complex \<Rightarrow> complex" where
  "im_complex t = Complex \<bar>Im t\<bar> 0"

definition im_T :: "real \<Rightarrow> real" where
  "im_T t = 0"

text \<open>
  The template parameter \<^verbatim>\<open>NumberType\<close> of \<^verbatim>\<open>FunctionEvaluator\<close>: the conversion from the
  parser's constants, the value of \<^verbatim>\<open>NumberType()\<close>, the five operators and the thirteen
  functions of the two dispatch tables.
\<close>

record 'a NumberType =
  from_constant :: "complex \<Rightarrow> 'a"
  default_value :: 'a
  op_add :: "'a \<Rightarrow> 'a \<Rightarrow> 'a"
  op_sub :: "'a \<Rightarrow> 'a \<Rightarrow> 'a"
  op_mul :: "'a \<Rightarrow> 'a \<Rightarrow> 'a"
  op_div :: "'a \<Rightarrow> 'a \<Rightarrow> 'a"
  std_pow :: "'a \<Rightarrow> 'a \<Rightarrow> 'a"
  std_sin :: "'a \<Rightarrow> 'a"
  std_cos :: "'a \<Rightarrow> 'a"
  std_tan :: "'a \<Rightarrow> 'a"
  std_sinh :: "'a \<Rightarrow> 'a"
  std_cosh :: "'a \<Rightarrow> 'a"
  std_tanh :: "'a \<Rightarrow> 'a"
  std_exp :: "'a \<Rightarrow> 'a"
  std_log :: "'a \<Rightarrow> 'a"
  std_abs :: "'a \<Rightarrow> 'a"
  mth_pos :: "'a \<Rightarrow> 'a"
  mth_ang :: "'a \<Rightarrow> 'a"
  mth_re :: "'a \<Rightarrow> 'a"
  mth_im :: "'a \<Rightarrow> 'a"

text \<open>
  The functions of the C++ library on \<^verbatim>\<open>std::complex<double>\<close> that the evaluator calls.  They
  are not code of this repository and are parameters of the model; \<^verbatim>\<open>std::abs\<close> of a complex
  number returns a \<^verbatim>\<open>double\<close>.
\<close>

record libm =
  c_pow :: "complex \<Rightarrow> complex \<Rightarrow> complex"
  c_sin :: "complex \<Rightarrow> complex"
  c_cos :: "complex \<Rightarrow> complex"
  c_tan :: "complex \<Rightarrow> complex"
  c_sinh :: "complex \<Rightarrow> complex"
  c_cosh :: "complex \<Rightarrow> complex"
  c_tanh :: "complex \<Rightarrow> complex"
  c_exp :: "complex \<Rightarrow> complex"
  c_log :: "complex \<Rightarrow> complex"
  c_abs :: "complex \<Rightarrow> real"
  r_atan2 :: "real \<Rightarrow> real \<Rightarrow> real"

text \<open>
  The instantiation \<^verbatim>\<open>FunctionEvaluator<std::complex<double>>\<close>, the one \<^verbatim>\<open>main\<close> uses.  The
  four arithmetic operators are those of the field of complex numbers.
\<close>

definition complex_double :: "libm \<Rightarrow> complex NumberType" where
  "complex_double lib =
     \<lparr>from_constant = (\<lambda>v. v), default_value = Complex 0 0,
      op_add = (\<lambda>lhs rhs. lhs + rhs), op_sub = (\<lambda>lhs rhs. lhs - rhs),
      op_mul = (\<lambda>lhs rhs. lhs * rhs), op_div = (\<lambda>lhs rhs. lhs / rhs),
      std_pow = c_pow lib,
      std_sin = c_sin lib, std_cos = c_cos lib, std_tan = c_tan lib,
      std_sinh = c_sinh lib, std_cosh = c_cosh lib, std_tanh = c_tanh lib,
      std_exp = c_exp lib, std_log = c_log lib, std_abs = (\<lambda>p. Complex (c_abs lib p) 0),
      mth_pos = pos_complex, mth_ang = ang_complex (r_atan2 lib),
      mth_re = re_complex, mth_im = im_complex\<rparr>"

text \<open>
  The evaluation tree.  A \<open>VariableE\<close> holds a reference into the variable map; the reference
  is the key, and evaluating it reads the map.
\<close>

datatype 'a Elem =
    ConstantE 'a
  | VariableE int
  | FunctionE "'a \<Rightarrow> 'a" "'a Elem"
  | OperatorE "'a \<Rightarrow> 'a \<Rightarrow> 'a" "'a Elem" "'a Elem"

text \<open>The two tables of \<^verbatim>\<open>ConvertOperator\<close> and \<^verbatim>\<open>ConvertFunction\<close>, indexed by the name.\<close>

fun operator_functions :: "'a NumberType \<Rightarrow> OperatorName \<Rightarrow> 'a \<Rightarrow> 'a \<Rightarrow> 'a" where
  "operator_functions T add_op = op_add T"
| "operator_functions T sub_op = op_sub T"
| "operator_functions T mul_op = op_mul T"
| "operator_functions T div_op = op_div T"
| "operator_functions T pow_op = std_pow T"

fun function_functions :: "'a NumberType \<Rightarrow> FunctionName \<Rightarrow> 'a \<Rightarrow> 'a" where
  "function_functions T sin_fn = std_sin T"
| "function_functions T cos_fn = std_cos T"
| "function_functions T tan_fn = std_tan T"
| "function_functions T sinh_fn = std_sinh T"
| "function_functions T cosh_fn = std_cosh T"
| "function_functions T tanh_fn = std_tanh T"
| "function_functions T exp_fn = std_exp T"
| "function_functions T log_fn = std_log T"
| "function_functions T abs_fn = std_abs T"
| "function_functions T pos_fn = mth_pos T"
| "function_functions T ang_fn = mth_ang T"
| "function_functions T re_fn = mth_re T"
| "function_functions T im_fn = mth_im T"

text \<open>
  \<^verbatim>\<open>ConvertElem\<close> with the four converters it dispatches to.  The argument is a pointer:
  on a null pointer the source dereferences it, which is undefined in C++ and is the
  result \<open>None\<close> here.  Otherwise the result is the exception or the converted tree.
\<close>

fun ConvertElem ::
    "'a NumberType \<Rightarrow> (int \<rightharpoonup> 'a) \<Rightarrow> FuncElem option \<Rightarrow> (FuncParseExcept + 'a Elem) option" where
  "ConvertElem T m_variables None = None"
| "ConvertElem T m_variables (Some (Operator name precedence lhs rhs)) =
     (case ConvertElem T m_variables lhs of
        None \<Rightarrow> None
      | Some (Inl e) \<Rightarrow> Some (Inl e)
      | Some (Inr param1) \<Rightarrow>
          (case ConvertElem T m_variables rhs of
             None \<Rightarrow> None
           | Some (Inl e) \<Rightarrow> Some (Inl e)
           | Some (Inr param2) \<Rightarrow> Some (Inr (OperatorE (operator_functions T name) param1 param2))))"
| "ConvertElem T m_variables (Some (Function name param)) =
     (case ConvertElem T m_variables param of
        None \<Rightarrow> None
      | Some (Inl e) \<Rightarrow> Some (Inl e)
      | Some (Inr param') \<Rightarrow> Some (Inr (FunctionE (function_functions T name) param')))"
| "ConvertElem T m_variables (Some (Constant v)) = Some (Inr (ConstantE (from_constant T v)))"
| "ConvertElem T m_variables (Some (Variable index)) =
     (case m_variables index of
        None \<Rightarrow> Some (Inl (FuncParseExcept InvalidVariableIndex 0))
      | Some v \<Rightarrow> Some (Inr (VariableE index)))"

text \<open>\<^verbatim>\<open>Elem::Eval\<close>; \<open>None\<close> is a read through a reference whose map entry is gone.\<close>

fun Eval :: "(int \<rightharpoonup> 'a) \<Rightarrow> 'a Elem \<Rightarrow> 'a option" where
  "Eval m_variables (ConstantE m_value) = Some m_value"
| "Eval m_variables (VariableE index) = m_variables index"
| "Eval m_variables (FunctionE m_function m_param) =
     (case Eval m_variables m_param of None \<Rightarrow> None | Some p \<Rightarrow> Some (m_function p))"
| "Eval m_variables (OperatorE m_function m_param0 m_param1) =
     (case Eval m_variables m_param0 of
        None \<Rightarrow> None
      | Some p0 \<Rightarrow>
          (case Eval m_variables m_param1 of None \<Rightarrow> None | Some p1 \<Rightarrow> Some (m_function p0 p1)))"

record 'a FunctionEvaluator =
  m_funcTree :: "'a Elem"
  m_variables :: "int \<rightharpoonup> 'a"

text \<open>
  The constructor, \<^verbatim>\<open>operator()\<close>, and an assignment \<^verbatim>\<open>Variables()[index] = v\<close> by the
  caller.
\<close>

definition FunctionEvaluator_ctor ::
    "'a NumberType \<Rightarrow> FunctionParser \<Rightarrow> (FuncParseExcept + 'a FunctionEvaluator) option" where
  "FunctionEvaluator_ctor T parser =
     (let vars = (\<lambda>v. if v \<in> UsedVariables parser then Some (default_value T) else None)
      in case ConvertElem T vars (PseudoCode parser) of
           None \<Rightarrow> None
         | Some (Inl e) \<Rightarrow> Some (Inl e)
         | Some (Inr tree) \<Rightarrow> Some (Inr \<lparr>m_funcTree = tree, m_variables = vars\<rparr>))"

definition call :: "'a FunctionEvaluator \<Rightarrow> 'a option" where
  "call ev = Eval (m_variables ev) (m_funcTree ev)"

definition assign :: "'a FunctionEvaluator \<Rightarrow> int \<Rightarrow> 'a \<Rightarrow> 'a FunctionEvaluator" where
  "assign ev index v = ev\<lparr>m_variables := (m_variables ev)(index \<mapsto> v)\<rparr>"


section \<open>Running the model on concrete inputs\<close>

text \<open>
  The equations that the simplifier needs to run the parser on a literal input.  The
  recursive ones are not simplification rules by default, as they would unfold without
  end on a symbolic argument.
\<close>

lemmas char_defs = char_at_def code_def IsLetter_def IsDigit_def IsNamePart_def IsNumberPart_def
  digit_value_def isspace_def

lemmas scan_defs = CountBetweenBraces_def CountBetweenBraces_loop.simps CountNameLength_def
  CountNameLength_loop.simps ScanNumber_def ScanNumber_int.simps ScanNumber_frac.simps
  g_FunctionNames_def Function_Name_of_index_def GetFunctionNameApplyPrecision_def
  GetFunctionNameApplyPrecision_loop.simps size_t_sub_def VariableIndex_loop.simps ScanName_def
  ScanOperator_def

lemmas reduce_defs = ReducePass.simps ReduceLoop.simps Reduce_def

lemmas parse_defs = ScanEvaluated.simps ParsePart.simps Tokenize.simps Parse_def
  strip_whitespace_def Clear_def FunctionParser_ctor_def Let_def

lemmas run_defs = char_defs scan_defs reduce_defs parse_defs

lemmas eval_defs = FunctionEvaluator_ctor_def PseudoCode_def UsedVariables_def
  SupportedPrecision_def complex_double_def call_def assign_def

lemma Parse_z_times_z_plus_c:
  "Parse ''z*z+c'' st =
     (None, \<lparr>m_usedVariables = {- 1, 0}, m_supportedPrecision = Extended, m_inputFunc = ''z*z+c'',
        m_parsedFunc = Some (Operator add_op 0
          (Some (Operator mul_op 1 (Some (Variable 0)) (Some (Variable 0))))
          (Some (Variable (- 1))))\<rparr>)"
  by (simp add: run_defs)

lemma Parse_one_point_five:
  "Parse ''1.5'' st =
     (None, \<lparr>m_usedVariables = {}, m_supportedPrecision = Extended, m_inputFunc = ''1.5'',
        m_parsedFunc = Some (Constant (Complex 51 0))\<rparr>)"
  by (simp add: run_defs)

lemma Parse_nested_braces:
  "Parse ''((z))'' st =
     (Some (FuncParseExcept OperatorExpected 4),
      \<lparr>m_usedVariables = {0}, m_supportedPrecision = Extended, m_inputFunc = [],
        m_parsedFunc = None\<rparr>)"
  by (simp add: run_defs)

lemma Parse_open_brace:
  "Parse ''(z+1'' st =
     (Some (FuncParseExcept OpenBraces 1),
      \<lparr>m_usedVariables = {}, m_supportedPrecision = Extended, m_inputFunc = [],
        m_parsedFunc = None\<rparr>)"
  by (simp add: run_defs)

section \<open>Invariants of the scanners\<close>

text \<open>
  What a scanner may do to the parser, whether it returns or throws: the stored input and
  the stored tree are left alone, variable indices are only added, and the precision either
  stays or drops to \<open>Single\<close>.
\<close>

definition scan_step :: "FunctionParser \<Rightarrow> FunctionParser \<Rightarrow> bool" where
  "scan_step st st' \<longleftrightarrow>
     m_inputFunc st' = m_inputFunc st \<and> m_parsedFunc st' = m_parsedFunc st \<and>
     m_usedVariables st \<subseteq> m_usedVariables st' \<and>
     (m_supportedPrecision st' = m_supportedPrecision st \<or> m_supportedPrecision st' = Single)"

lemma scan_step_refl: "scan_step st st"
  by (simp add: scan_step_def)

lemma scan_step_trans: "scan_step a b \<Longrightarrow> scan_step b c \<Longrightarrow> scan_step a c"
  by (auto simp: scan_step_def)

lemma ApplyPrecision_step: "scan_step st (ApplyPrecision n st)"
  by (cases n) (auto simp: scan_step_def)

lemma GetFunctionNameApplyPrecision_loop_step:
  "scan_step st (snd (GetFunctionNameApplyPrecision_loop name offset i st))"
proof (induction name offset i st rule: GetFunctionNameApplyPrecision_loop.induct)
  case (1 name offset i st)
  show ?case
    by (subst GetFunctionNameApplyPrecision_loop.simps)
       (use 1 in \<open>auto simp: Let_def scan_step_refl ApplyPrecision_step simp del: ApplyPrecision.simps\<close>)
qed

lemma GetFunctionNameApplyPrecision_step:
  "scan_step st (snd (GetFunctionNameApplyPrecision name offset st))"
  by (simp add: GetFunctionNameApplyPrecision_def GetFunctionNameApplyPrecision_loop_step)

lemma ScanName_step: "scan_step st (snd (ScanName name offset st))"
  by (auto simp: ScanName_def scan_step_def split: option.splits)

lemma scan_step_rec:
  shows "scan_step st (snd (ScanEvaluated func offset len st))"
    and "scan_step st (snd (ParsePart func offset len st))"
    and "scan_step st (snd (Tokenize func offset len i scanEvaluated tokenized st))"
proof (induction func offset len st and func offset len st and func offset len i scanEvaluated tokenized st
    rule: ScanEvaluated_ParsePart_Tokenize.induct)
  case (1 func offset len st)
  show ?case
  proof (cases "CHR ''('' = char_at func offset")
    case True
    show ?thesis
    proof (cases "CountBetweenBraces func (offset + 1) len")
      case (Inl e)
      with True show ?thesis
        by (subst ScanEvaluated.simps) (simp add: scan_step_refl)
    next
      case (Inr b)
      have "snd (ScanEvaluated func offset len st) = snd (ParsePart func (offset + 1) b st)"
        using True Inr by (subst ScanEvaluated.simps) (simp split: prod.splits sum.splits)
      with "1.IH"(1) [OF True Inr] show ?thesis by simp
    qed
  next
    case nparen: False
    show ?thesis
    proof (cases "IsLetter (char_at func offset)")
      case letter: True
      define nameLength where "nameLength = CountNameLength func offset (size_t_sub len offset)"
      define name where "name = take nameLength (drop offset func)"
      define offset' where "offset' = offset + nameLength"
      show ?thesis
      proof (cases "char_at func offset' = CHR ''(''")
        case True
        obtain r st1 where g: "GetFunctionNameApplyPrecision name offset' st = (r, st1)"
          by (cases "GetFunctionNameApplyPrecision name offset' st")
        have s1: "scan_step st st1"
          using GetFunctionNameApplyPrecision_step [of st name offset'] g by simp
        show ?thesis
        proof (cases r)
          case (Inl e)
          with nparen letter True g have "snd (ScanEvaluated func offset len st) = st1"
            by (subst ScanEvaluated.simps) (simp add: Let_def nameLength_def name_def offset'_def)
          with s1 show ?thesis by simp
        next
          case (Inr n)
          with nparen letter True g
          have "snd (ScanEvaluated func offset len st) = snd (ScanEvaluated func offset' len st1)"
            by (subst ScanEvaluated.simps)
               (simp add: Let_def nameLength_def name_def offset'_def split: prod.splits sum.splits)
          moreover have "scan_step st1 (snd (ScanEvaluated func offset' len st1))"
            using "1.IH"(2) [OF nparen letter nameLength_def name_def offset'_def True g [symmetric] Inr] .
          ultimately show ?thesis using s1 by (auto intro: scan_step_trans)
        qed
      next
        case False
        with nparen letter
        have "snd (ScanEvaluated func offset len st) = snd (ScanName name offset' st)"
          by (subst ScanEvaluated.simps) (simp add: Let_def nameLength_def name_def offset'_def)
        then show ?thesis by (simp add: ScanName_step)
      qed
    next
      case False
      with nparen have "snd (ScanEvaluated func offset len st) = st"
        by (subst ScanEvaluated.simps) (simp split: sum.splits prod.splits)
      then show ?thesis by (simp add: scan_step_refl)
    qed
  qed
next
  case (2 func offset len st)
  show ?case
  proof (cases "len = 0")
    case True
    then show ?thesis by (subst ParsePart.simps) (simp add: scan_step_refl)
  next
    case False
    then have "snd (ParsePart func offset len st) = snd (Tokenize func offset len offset True [] st)"
      by (subst ParsePart.simps) (simp split: prod.splits sum.splits)
    with "2.IH" [OF False] show ?thesis by simp
  qed
next
  case (3 func offset len i scanEvaluated tokenized st)
  show ?case
  proof (cases "i < offset + len")
    case False
    then show ?thesis by (subst Tokenize.simps) (simp add: scan_step_refl)
  next
    case inside: True
    show ?thesis
    proof (cases scanEvaluated)
      case True
      obtain r st1 where se: "ScanEvaluated func i (len + offset - i) st = (r, st1)"
        by (cases "ScanEvaluated func i (len + offset - i) st")
      have s1: "scan_step st st1"
        using "3.IH"(1) [OF inside True] se by simp
      show ?thesis
      proof (cases r)
        case (Inl e)
        with inside True se have "snd (Tokenize func offset len i scanEvaluated tokenized st) = st1"
          by (subst Tokenize.simps) simp
        with s1 show ?thesis by simp
      next
        case (Inr b)
        obtain elem i' where b: "b = (elem, i')" by (cases b)
        from inside True se Inr b
        have "snd (Tokenize func offset len i scanEvaluated tokenized st) =
              snd (Tokenize func offset len i' (\<not> scanEvaluated) (tokenized @ [elem]) st1)"
          by (subst Tokenize.simps) simp
        moreover have "scan_step st1 (snd (Tokenize func offset len i' (\<not> scanEvaluated) (tokenized @ [elem]) st1))"
          using "3.IH"(2) [OF inside True se [symmetric] Inr b [symmetric]] .
        ultimately show ?thesis using s1 by (auto intro: scan_step_trans)
      qed
    next
      case False
      show ?thesis
      proof (cases "ScanOperator func i")
        case (Inl e)
        with inside False show ?thesis by (subst Tokenize.simps) (simp add: scan_step_refl)
      next
        case (Inr b)
        obtain elem i' where b: "b = (elem, i')" by (cases b)
        from inside False Inr b
        have "snd (Tokenize func offset len i scanEvaluated tokenized st) =
              snd (Tokenize func offset len i' (\<not> scanEvaluated) (tokenized @ [elem]) st)"
          by (subst Tokenize.simps) simp
        with "3.IH"(3) [OF inside False Inr b [symmetric]] show ?thesis by simp
      qed
    qed
  qed
qed

text \<open>
  The function names that occur in a tree, and the invariant that ties them to the
  precision: a tree the parser holds has only \<open>pos\<close>, \<open>re\<close> and \<open>im\<close> in it, or the precision is
  \<open>Single\<close>.
\<close>

fun function_names :: "FuncElem \<Rightarrow> FunctionName set" where
  "function_names (Variable index) = {}"
| "function_names (Constant v) = {}"
| "function_names (Function name param) = insert name (\<Union> (function_names ` set_option param))"
| "function_names (Operator name precedence lhs rhs) =
     \<Union> (function_names ` set_option lhs) \<union> \<Union> (function_names ` set_option rhs)"

definition tracked :: "FunctionParser \<Rightarrow> FuncElem \<Rightarrow> bool" where
  "tracked st elem \<longleftrightarrow>
     function_names elem \<subseteq> {pos_fn, re_fn, im_fn} \<or> m_supportedPrecision st = Single"

lemma tracked_step: "tracked st elem \<Longrightarrow> scan_step st st' \<Longrightarrow> tracked st' elem"
  by (auto simp: tracked_def scan_step_def)

lemma function_names_SetParams:
  "function_names (SetParams elem lhs rhs) \<subseteq>
     function_names elem \<union> function_names lhs \<union> function_names rhs"
  by (cases elem) auto

lemma ReducePass_names:
  "ReducePass precedence tokenized tokenCount storeIdx readIdx = Inr (tokenized', storeIdx') \<Longrightarrow>
   tokenCount \<le> length tokenized \<Longrightarrow> storeIdx \<le> readIdx \<Longrightarrow> readIdx \<le> tokenCount \<Longrightarrow>
   length tokenized' = length tokenized \<and> storeIdx' \<le> tokenCount \<and>
   \<Union> (function_names ` set tokenized') \<subseteq> \<Union> (function_names ` set tokenized)"
proof (induction precedence tokenized tokenCount storeIdx readIdx rule: ReducePass.induct)
  case (1 precedence tokenized tokenCount storeIdx readIdx)
  show ?case
  proof (cases "readIdx < tokenCount")
    case False
    with "1.prems" show ?thesis
      by (subst (asm) ReducePass.simps) auto
  next
    case inside: True
    show ?thesis
    proof (cases "IsOperatorOf precedence (tokenized ! readIdx)")
      case True
      from "1.prems"(1) inside True have ok: "readIdx + 1 < tokenCount \<and> storeIdx > 0"
        by (subst (asm) ReducePass.simps) (auto split: if_splits)
      define tokenized1 where "tokenized1 = tokenized[storeIdx - 1 :=
        SetParams (tokenized ! readIdx) (tokenized ! (storeIdx - 1)) (tokenized ! (readIdx + 1))]"
      from "1.prems"(1) inside True ok
      have run: "ReducePass precedence tokenized1 tokenCount storeIdx (readIdx + 2) = Inr (tokenized', storeIdx')"
        by (subst (asm) ReducePass.simps) (simp add: tokenized1_def)
      have len: "length tokenized1 = length tokenized" by (simp add: tokenized1_def)
      have mem: "tokenized ! readIdx \<in> set tokenized" "tokenized ! (storeIdx - 1) \<in> set tokenized"
        "tokenized ! (readIdx + 1) \<in> set tokenized"
        using ok inside "1.prems" by (auto intro!: nth_mem)
      have "set tokenized1 \<subseteq> insert (SetParams (tokenized ! readIdx) (tokenized ! (storeIdx - 1))
          (tokenized ! (readIdx + 1))) (set tokenized)"
        unfolding tokenized1_def by (rule set_update_subset_insert)
      then have names1: "\<Union> (function_names ` set tokenized1) \<subseteq> \<Union> (function_names ` set tokenized)"
        using function_names_SetParams [of "tokenized ! readIdx" "tokenized ! (storeIdx - 1)"
          "tokenized ! (readIdx + 1)"] mem by fastforce
      have "length tokenized' = length tokenized1 \<and> storeIdx' \<le> tokenCount \<and>
        \<Union> (function_names ` set tokenized') \<subseteq> \<Union> (function_names ` set tokenized1)"
        using "1.IH"(1) [OF inside True _ run [unfolded tokenized1_def]] ok "1.prems" len
        by (simp add: tokenized1_def)
      with len names1 show ?thesis by (metis order_trans)
    next
      case False
      define tokenized1 where "tokenized1 =
        (if storeIdx \<noteq> readIdx then tokenized[storeIdx := tokenized ! readIdx] else tokenized)"
      from "1.prems"(1) inside False
      have run: "ReducePass precedence tokenized1 tokenCount (storeIdx + 1) (readIdx + 1) = Inr (tokenized', storeIdx')"
        by (subst (asm) ReducePass.simps) (simp add: tokenized1_def)
      have len: "length tokenized1 = length tokenized" by (simp add: tokenized1_def)
      have mem: "tokenized ! readIdx \<in> set tokenized"
        using inside "1.prems" by (auto intro!: nth_mem)
      have "set tokenized1 \<subseteq> insert (tokenized ! readIdx) (set tokenized)"
        unfolding tokenized1_def using set_update_subset_insert [of tokenized storeIdx "tokenized ! readIdx"]
        by auto
      then have names1: "\<Union> (function_names ` set tokenized1) \<subseteq> \<Union> (function_names ` set tokenized)"
        using mem by fastforce
      have "length tokenized' = length tokenized1 \<and> storeIdx' \<le> tokenCount \<and>
        \<Union> (function_names ` set tokenized') \<subseteq> \<Union> (function_names ` set tokenized1)"
        using "1.IH"(2) [OF inside False run [unfolded tokenized1_def]] inside "1.prems" len
        by (simp add: tokenized1_def)
      with len names1 show ?thesis by (metis order_trans)
    qed
  qed
qed

lemma ReduceLoop_names:
  "ReduceLoop precedence tokenized tokenCount = Inr (tokenized', tokenCount') \<Longrightarrow>
   tokenCount \<le> length tokenized \<Longrightarrow>
   tokenCount' \<le> length tokenized' \<and>
   \<Union> (function_names ` set tokenized') \<subseteq> \<Union> (function_names ` set tokenized)"
proof (induction precedence tokenized tokenCount rule: ReduceLoop.induct)
  case (1 precedence tokenized tokenCount)
  show ?case
  proof (cases "precedence \<ge> 0")
    case False
    with "1.prems" show ?thesis
      by (subst (asm) ReduceLoop.simps) auto
  next
    case True
    from "1.prems"(1) True obtain tokenized1 storeIdx where
      pass: "ReducePass precedence tokenized tokenCount 0 0 = Inr (tokenized1, storeIdx)" and
      rest: "ReduceLoop (precedence - 1) tokenized1 storeIdx = Inr (tokenized', tokenCount')"
      by (subst (asm) ReduceLoop.simps) (auto split: sum.splits)
    from ReducePass_names [OF pass "1.prems"(2)]
    have p: "length tokenized1 = length tokenized" "storeIdx \<le> tokenCount"
      "\<Union> (function_names ` set tokenized1) \<subseteq> \<Union> (function_names ` set tokenized)"
      by auto
    from "1.IH" [OF True pass refl rest] p "1.prems"(2)
    have "tokenCount' \<le> length tokenized'"
      "\<Union> (function_names ` set tokenized') \<subseteq> \<Union> (function_names ` set tokenized1)"
      by simp_all
    with p(3) show ?thesis by (metis order_trans)
  qed
qed

lemma Reduce_names:
  assumes "Reduce offset len tokenized scanEvaluated = Inr elem"
  shows "function_names elem \<subseteq> \<Union> (function_names ` set tokenized)"
proof -
  from assms obtain tokenized' tokenCount where
    loop: "ReduceLoop 2 tokenized (length tokenized) = Inr (tokenized', tokenCount)" and
    one: "tokenCount = 1" and elem: "elem = tokenized' ! 0"
    by (auto simp: Reduce_def split: if_splits sum.splits)
  from ReduceLoop_names [OF loop] one
  have "1 \<le> length tokenized'"
    "\<Union> (function_names ` set tokenized') \<subseteq> \<Union> (function_names ` set tokenized)"
    by auto
  moreover from this have "tokenized' ! 0 \<in> set tokenized'" by (auto intro!: nth_mem)
  ultimately show ?thesis using elem by auto
qed


lemma ApplyPrecision_tracked:
  "n \<in> {pos_fn, re_fn, im_fn} \<or> m_supportedPrecision (ApplyPrecision n st) = Single"
  by (cases n) auto

lemma GetFunctionNameApplyPrecision_loop_tracked:
  "GetFunctionNameApplyPrecision_loop name offset i st = (Inr n, st1) \<Longrightarrow>
   n \<in> {pos_fn, re_fn, im_fn} \<or> m_supportedPrecision st1 = Single"
proof (induction name offset i st rule: GetFunctionNameApplyPrecision_loop.induct)
  case (1 name offset i st)
  from "1.prems" show ?case
    by (subst (asm) GetFunctionNameApplyPrecision_loop.simps)
       (use "1.IH" ApplyPrecision_tracked in
         \<open>auto simp: Let_def simp del: ApplyPrecision.simps split: if_splits\<close>)
qed

lemma GetFunctionNameApplyPrecision_tracked:
  "GetFunctionNameApplyPrecision name offset st = (Inr n, st1) \<Longrightarrow>
   n \<in> {pos_fn, re_fn, im_fn} \<or> m_supportedPrecision st1 = Single"
  unfolding GetFunctionNameApplyPrecision_def by (rule GetFunctionNameApplyPrecision_loop_tracked)

lemma ScanName_tracked:
  "ScanName name offset st = (Inr (elem, offset'), st') \<Longrightarrow> function_names elem = {}"
  by (auto simp: ScanName_def split: if_splits option.splits)

lemma tracked_rec:
  shows "\<forall>elem i' st'. ScanEvaluated func offset len st = (Inr (elem, i'), st') \<longrightarrow> tracked st' elem"
    and "\<forall>elem st'. ParsePart func offset len st = (Inr elem, st') \<longrightarrow> tracked st' elem"
    and "\<forall>toks flag st'. Tokenize func offset len i scanEvaluated tokenized st = (Inr (toks, flag), st') \<longrightarrow>
           (\<forall>t\<in>set tokenized. tracked st t) \<longrightarrow> (\<forall>t\<in>set toks. tracked st' t)"
proof (induction func offset len st and func offset len st and func offset len i scanEvaluated tokenized st
    rule: ScanEvaluated_ParsePart_Tokenize.induct)
  case (1 func offset len st)
  show ?case
  proof (intro allI impI)
    fix elem i' st'
    assume res: "ScanEvaluated func offset len st = (Inr (elem, i'), st')"
    note eq = res [unfolded ScanEvaluated.simps [of func offset len st]]
    show "tracked st' elem"
    proof (cases "CHR ''('' = char_at func offset")
      case True
      with eq obtain b where b: "CountBetweenBraces func (offset + 1) len = Inr b"
        and pp: "ParsePart func (offset + 1) b st = (Inr elem, st')"
        by (auto split: sum.splits prod.splits)
      from "1.IH"(1) [OF True b] pp show ?thesis by blast
    next
      case nparen: False
      show ?thesis
      proof (cases "IsLetter (char_at func offset)")
        case letter: True
        define nameLength where "nameLength = CountNameLength func offset (size_t_sub len offset)"
        define name where "name = take nameLength (drop offset func)"
        define offset' where "offset' = offset + nameLength"
        show ?thesis
        proof (cases "char_at func offset' = CHR ''(''")
          case True
          obtain r st1 where g: "GetFunctionNameApplyPrecision name offset' st = (r, st1)"
            by (cases "GetFunctionNameApplyPrecision name offset' st")
          with eq nparen letter True obtain n where r: "r = Inr n"
            by (cases r) (auto simp: Let_def nameLength_def name_def offset'_def)
          from eq nparen letter True g r obtain param where
            rec: "ScanEvaluated func offset' len st1 = (Inr (param, i'), st')" and
            elem: "elem = Function n (Some param)"
            by (auto simp: Let_def nameLength_def name_def offset'_def split: sum.splits prod.splits)
          from "1.IH"(2) [OF nparen letter nameLength_def name_def offset'_def True g [symmetric] r] rec
          have p: "tracked st' param" by blast
          have "scan_step st1 st'"
            using scan_step_rec(1) [of st1 func offset' len] rec by simp
          with GetFunctionNameApplyPrecision_tracked [OF g [unfolded r]]
          have "n \<in> {pos_fn, re_fn, im_fn} \<or> m_supportedPrecision st' = Single"
            by (auto simp: scan_step_def)
          with p elem show ?thesis by (auto simp: tracked_def)
        next
          case False
          with eq nparen letter have "ScanName name offset' st = (Inr (elem, i'), st')"
            by (simp add: Let_def nameLength_def name_def offset'_def)
          from ScanName_tracked [OF this] show ?thesis by (simp add: tracked_def)
        qed
      next
        case False
        with eq nparen show ?thesis
          by (auto simp: tracked_def split: if_splits sum.splits)
      qed
    qed
  qed
next
  case (2 func offset len st)
  show ?case
  proof (intro allI impI)
    fix elem st'
    assume res: "ParsePart func offset len st = (Inr elem, st')"
    note eq = res [unfolded ParsePart.simps [of func offset len st]]
    from eq have nz: "len \<noteq> 0" by (auto split: if_splits)
    with eq obtain tokenized flag where
      tok: "Tokenize func offset len offset True [] st = (Inr (tokenized, flag), st')" and
      red: "Reduce offset len tokenized flag = Inr elem"
      by (auto split: sum.splits prod.splits)
    from "2.IH" [OF nz] tok have all: "\<forall>t\<in>set tokenized. tracked st' t" by fastforce
    from Reduce_names [OF red] have "function_names elem \<subseteq> \<Union> (function_names ` set tokenized)" .
    with all show "tracked st' elem" by (fastforce simp: tracked_def)
  qed
next
  case (3 func offset len i scanEvaluated tokenized st)
  show ?case
  proof (intro allI impI)
    fix toks flag st'
    assume res: "Tokenize func offset len i scanEvaluated tokenized st = (Inr (toks, flag), st')"
      and pre: "\<forall>t\<in>set tokenized. tracked st t"
    note eq = res [unfolded Tokenize.simps [of func offset len i scanEvaluated tokenized st]]
    show "\<forall>t\<in>set toks. tracked st' t"
    proof (cases "i < offset + len")
      case False
      with eq pre show ?thesis by auto
    next
      case inside: True
      show ?thesis
      proof (cases scanEvaluated)
        case True
        from eq inside True obtain elem i1 st1 where
          se: "ScanEvaluated func i (len + offset - i) st = (Inr (elem, i1), st1)" and
          rec: "Tokenize func offset len i1 (\<not> scanEvaluated) (tokenized @ [elem]) st1 = (Inr (toks, flag), st')"
          by (auto split: sum.splits prod.splits)
        from "3.IH"(1) [OF inside True] se have e: "tracked st1 elem" by blast
        have "scan_step st st1"
          using scan_step_rec(1) [of st func i "len + offset - i"] se by simp
        with pre have "\<forall>t\<in>set tokenized. tracked st1 t" by (auto intro: tracked_step)
        with e have "\<forall>t\<in>set (tokenized @ [elem]). tracked st1 t" by auto
        with "3.IH"(2) [OF inside True se [symmetric] refl refl] rec show ?thesis by blast
      next
        case False
        from eq inside False obtain elem i1 where
          so: "ScanOperator func i = Inr (elem, i1)" and
          rec: "Tokenize func offset len i1 (\<not> scanEvaluated) (tokenized @ [elem]) st = (Inr (toks, flag), st')"
          by (auto split: sum.splits prod.splits)
        from so have "function_names elem = {}"
          by (auto simp: ScanOperator_def Let_def split: if_splits)
        with pre have "\<forall>t\<in>set (tokenized @ [elem]). tracked st t" by (auto simp: tracked_def)
        with "3.IH"(3) [OF inside False so refl] rec show ?thesis by blast
      qed
    qed
  qed
qed

text \<open>The lookup loop of \<^verbatim>\<open>GetFunctionNameApplyPrecision\<close>, unrolled over its thirteen names.\<close>

lemma GetFunctionNameApplyPrecision_unfold:
  "GetFunctionNameApplyPrecision name offset st =
     (if name = ''sin'' then (Inr sin_fn, ApplyPrecision sin_fn st)
      else if name = ''cos'' then (Inr cos_fn, ApplyPrecision cos_fn st)
      else if name = ''tan'' then (Inr tan_fn, ApplyPrecision tan_fn st)
      else if name = ''sinh'' then (Inr sinh_fn, ApplyPrecision sinh_fn st)
      else if name = ''cosh'' then (Inr cosh_fn, ApplyPrecision cosh_fn st)
      else if name = ''tanh'' then (Inr tanh_fn, ApplyPrecision tanh_fn st)
      else if name = ''exp'' then (Inr exp_fn, ApplyPrecision exp_fn st)
      else if name = ''log'' then (Inr log_fn, ApplyPrecision log_fn st)
      else if name = ''abs'' then (Inr abs_fn, ApplyPrecision abs_fn st)
      else if name = ''pos'' then (Inr pos_fn, ApplyPrecision pos_fn st)
      else if name = ''ang'' then (Inr ang_fn, ApplyPrecision ang_fn st)
      else if name = ''re'' then (Inr re_fn, ApplyPrecision re_fn st)
      else if name = ''im'' then (Inr im_fn, ApplyPrecision im_fn st)
      else (Inl (FuncParseExcept UnknownSymbol offset), st))"
  unfolding GetFunctionNameApplyPrecision_def
  apply (subst GetFunctionNameApplyPrecision_loop.simps)
  apply (subst GetFunctionNameApplyPrecision_loop.simps)
  apply (subst GetFunctionNameApplyPrecision_loop.simps)
  apply (subst GetFunctionNameApplyPrecision_loop.simps)
  apply (subst GetFunctionNameApplyPrecision_loop.simps)
  apply (subst GetFunctionNameApplyPrecision_loop.simps)
  apply (subst GetFunctionNameApplyPrecision_loop.simps)
  apply (subst GetFunctionNameApplyPrecision_loop.simps)
  apply (subst GetFunctionNameApplyPrecision_loop.simps)
  apply (subst GetFunctionNameApplyPrecision_loop.simps)
  apply (subst GetFunctionNameApplyPrecision_loop.simps)
  apply (subst GetFunctionNameApplyPrecision_loop.simps)
  apply (subst GetFunctionNameApplyPrecision_loop.simps)
  apply (subst GetFunctionNameApplyPrecision_loop.simps)
  apply (simp add: g_FunctionNames_def Function_Name_of_index_def Let_def
      del: ApplyPrecision.simps cong: if_cong)
  done


text \<open>
  The ten names whose use costs the precision, and what it means for the stripped input to
  use one: the name stands in the text right before an opening parenthesis.
\<close>

definition precision_sensitive :: "string set" where
  "precision_sensitive =
     {''sin'', ''cos'', ''tan'', ''sinh'', ''cosh'', ''tanh'', ''exp'', ''log'', ''abs'', ''ang''}"

definition called_at :: "string \<Rightarrow> nat \<Rightarrow> string \<Rightarrow> bool" where
  "called_at func k name \<longleftrightarrow>
     take (length name) (drop k func) = name \<and> char_at func (k + length name) = CHR ''(''"

definition calls_precision_sensitive :: "string \<Rightarrow> bool" where
  "calls_precision_sensitive func \<longleftrightarrow>
     (\<exists>name \<in> precision_sensitive. \<exists>k < length func. called_at func k name)"

lemma GetFunctionNameApplyPrecision_safe:
  "name \<in> {''pos'', ''re'', ''im''} \<Longrightarrow> snd (GetFunctionNameApplyPrecision name offset st) = st"
  by (elim insertE emptyE; simp add: GetFunctionNameApplyPrecision_unfold)

lemma GetFunctionNameApplyPrecision_sensitive:
  "name \<in> precision_sensitive \<Longrightarrow>
   m_supportedPrecision (snd (GetFunctionNameApplyPrecision name offset st)) = Single"
  unfolding precision_sensitive_def
  by (elim insertE emptyE; simp add: GetFunctionNameApplyPrecision_unfold)

lemma GetFunctionNameApplyPrecision_unknown:
  "name \<notin> set g_FunctionNames \<Longrightarrow>
   GetFunctionNameApplyPrecision name offset st = (Inl (FuncParseExcept UnknownSymbol offset), st)"
  by (simp add: GetFunctionNameApplyPrecision_unfold g_FunctionNames_def)

lemma GetFunctionNameApplyPrecision_changes:
  assumes "m_supportedPrecision (snd (GetFunctionNameApplyPrecision name offset st)) \<noteq> m_supportedPrecision st"
  shows "name \<in> precision_sensitive"
proof (rule ccontr)
  assume "name \<notin> precision_sensitive"
  then have "snd (GetFunctionNameApplyPrecision name offset st) = st"
    by (simp add: GetFunctionNameApplyPrecision_unfold precision_sensitive_def)
  with assms show False by simp
qed

lemma IsNamePart_char_at: "IsNamePart (char_at func j) \<Longrightarrow> j < length func"
  by (auto simp: IsNamePart_def IsLetter_def IsDigit_def char_at_def code_def split: if_splits)

lemma CountNameLength_loop_inside:
  "i \<le> len \<Longrightarrow> (i = 0 \<or> offset + i \<le> length func) \<Longrightarrow>
   CountNameLength_loop func offset len i = 0 \<or>
   offset + CountNameLength_loop func offset len i \<le> length func"
proof (induction func offset len i rule: CountNameLength_loop.induct)
  case (1 func offset len i)
  show ?case
  proof (cases "i < len \<and> IsNamePart (char_at func (offset + i))")
    case True
    then have "offset + (i + 1) \<le> length func"
      using IsNamePart_char_at [of func "offset + i"] by simp
    with "1.IH" True show ?thesis
      by (subst (1 2) CountNameLength_loop.simps) simp
  next
    case False
    with "1.prems" show ?thesis
      by (subst (1 2) CountNameLength_loop.simps) auto
  qed
qed

lemma CountNameLength_inside:
  "length (take (CountNameLength func offset len) (drop offset func)) = CountNameLength func offset len"
  using CountNameLength_loop_inside [of 0 len offset func]
  by (auto simp: CountNameLength_def)

lemma ScanName_precision:
  "m_supportedPrecision (snd (ScanName name offset st)) = m_supportedPrecision st"
  by (auto simp: ScanName_def split: option.splits)

lemma precision_rec:
  shows "m_supportedPrecision (snd (ScanEvaluated func offset len st)) = m_supportedPrecision st \<or>
         calls_precision_sensitive func"
    and "m_supportedPrecision (snd (ParsePart func offset len st)) = m_supportedPrecision st \<or>
         calls_precision_sensitive func"
    and "m_supportedPrecision (snd (Tokenize func offset len i scanEvaluated tokenized st)) =
           m_supportedPrecision st \<or> calls_precision_sensitive func"
proof (induction func offset len st and func offset len st and func offset len i scanEvaluated tokenized st
    rule: ScanEvaluated_ParsePart_Tokenize.induct)
  case (1 func offset len st)
  show ?case
  proof (cases "CHR ''('' = char_at func offset")
    case True
    show ?thesis
    proof (cases "CountBetweenBraces func (offset + 1) len")
      case (Inl e)
      with True show ?thesis
        by (subst ScanEvaluated.simps) simp
    next
      case (Inr b)
      have "snd (ScanEvaluated func offset len st) = snd (ParsePart func (offset + 1) b st)"
        using True Inr by (subst ScanEvaluated.simps) (simp split: prod.splits sum.splits)
      with "1.IH"(1) [OF True Inr] show ?thesis by simp
    qed
  next
    case nparen: False
    show ?thesis
    proof (cases "IsLetter (char_at func offset)")
      case letter: True
      define nameLength where "nameLength = CountNameLength func offset (size_t_sub len offset)"
      define name where "name = take nameLength (drop offset func)"
      define offset' where "offset' = offset + nameLength"
      have len_name: "length name = nameLength"
        unfolding name_def nameLength_def by (rule CountNameLength_inside)
      from letter have inside: "offset < length func"
        by (auto simp: IsLetter_def char_at_def code_def split: if_splits)
      show ?thesis
      proof (cases "char_at func offset' = CHR ''(''")
        case True
        obtain r st1 where g: "GetFunctionNameApplyPrecision name offset' st = (r, st1)"
          by (cases "GetFunctionNameApplyPrecision name offset' st")
        have s1: "m_supportedPrecision st1 = m_supportedPrecision st \<or> calls_precision_sensitive func"
        proof (cases "m_supportedPrecision st1 = m_supportedPrecision st")
          case False
          with g have "name \<in> precision_sensitive"
            using GetFunctionNameApplyPrecision_changes [of name offset' st] by simp
          moreover have "called_at func offset name"
            using True len_name by (simp add: called_at_def name_def offset'_def)
          ultimately show ?thesis using inside by (auto simp: calls_precision_sensitive_def)
        qed simp
        show ?thesis
        proof (cases r)
          case (Inl e)
          with nparen letter True g have "snd (ScanEvaluated func offset len st) = st1"
            by (subst ScanEvaluated.simps) (simp add: Let_def nameLength_def name_def offset'_def)
          with s1 show ?thesis by simp
        next
          case (Inr n)
          with nparen letter True g
          have "snd (ScanEvaluated func offset len st) = snd (ScanEvaluated func offset' len st1)"
            by (subst ScanEvaluated.simps)
               (simp add: Let_def nameLength_def name_def offset'_def split: prod.splits sum.splits)
          moreover have "m_supportedPrecision (snd (ScanEvaluated func offset' len st1)) = m_supportedPrecision st1
              \<or> calls_precision_sensitive func"
            using "1.IH"(2) [OF nparen letter nameLength_def name_def offset'_def True g [symmetric] Inr] .
          ultimately show ?thesis using s1 by auto
        qed
      next
        case False
        with nparen letter
        have "snd (ScanEvaluated func offset len st) = snd (ScanName name offset' st)"
          by (subst ScanEvaluated.simps) (simp add: Let_def nameLength_def name_def offset'_def)
        then show ?thesis by (simp add: ScanName_precision)
      qed
    next
      case False
      with nparen have "snd (ScanEvaluated func offset len st) = st"
        by (subst ScanEvaluated.simps) (simp split: sum.splits prod.splits)
      then show ?thesis by simp
    qed
  qed
next
  case (2 func offset len st)
  show ?case
  proof (cases "len = 0")
    case True
    then show ?thesis by (subst ParsePart.simps) simp
  next
    case False
    then have "snd (ParsePart func offset len st) = snd (Tokenize func offset len offset True [] st)"
      by (subst ParsePart.simps) (simp split: prod.splits sum.splits)
    with "2.IH" [OF False] show ?thesis by simp
  qed
next
  case (3 func offset len i scanEvaluated tokenized st)
  show ?case
  proof (cases "i < offset + len")
    case False
    then show ?thesis by (subst Tokenize.simps) simp
  next
    case inside: True
    show ?thesis
    proof (cases scanEvaluated)
      case True
      obtain r st1 where se: "ScanEvaluated func i (len + offset - i) st = (r, st1)"
        by (cases "ScanEvaluated func i (len + offset - i) st")
      have s1: "m_supportedPrecision st1 = m_supportedPrecision st \<or> calls_precision_sensitive func"
        using "3.IH"(1) [OF inside True] se by simp
      show ?thesis
      proof (cases r)
        case (Inl e)
        with inside True se have "snd (Tokenize func offset len i scanEvaluated tokenized st) = st1"
          by (subst Tokenize.simps) simp
        with s1 show ?thesis by simp
      next
        case (Inr b)
        obtain elem i' where b: "b = (elem, i')" by (cases b)
        from inside True se Inr b
        have "snd (Tokenize func offset len i scanEvaluated tokenized st) =
              snd (Tokenize func offset len i' (\<not> scanEvaluated) (tokenized @ [elem]) st1)"
          by (subst Tokenize.simps) simp
        moreover have "m_supportedPrecision (snd (Tokenize func offset len i' (\<not> scanEvaluated) (tokenized @ [elem]) st1))
            = m_supportedPrecision st1 \<or> calls_precision_sensitive func"
          using "3.IH"(2) [OF inside True se [symmetric] Inr b [symmetric]] .
        ultimately show ?thesis using s1 by auto
      qed
    next
      case False
      show ?thesis
      proof (cases "ScanOperator func i")
        case (Inl e)
        with inside False show ?thesis by (subst Tokenize.simps) simp
      next
        case (Inr b)
        obtain elem i' where b: "b = (elem, i')" by (cases b)
        from inside False Inr b
        have "snd (Tokenize func offset len i scanEvaluated tokenized st) =
              snd (Tokenize func offset len i' (\<not> scanEvaluated) (tokenized @ [elem]) st)"
          by (subst Tokenize.simps) simp
        with "3.IH"(3) [OF inside False Inr b [symmetric]] show ?thesis by simp
      qed
    qed
  qed
qed

text \<open>What \<^verbatim>\<open>Parse\<close> leaves behind, in terms of \<^verbatim>\<open>ParsePart\<close> on the stripped input.\<close>

lemma Parse_fst:
  "fst (Parse function st) =
     (case fst (ParsePart (strip_whitespace function) 0 (length (strip_whitespace function)) (Clear st)) of
        Inl e \<Rightarrow> Some e | Inr output \<Rightarrow> None)"
  by (simp add: Parse_def Let_def split: prod.splits sum.splits)

lemma Parse_precision:
  "m_supportedPrecision (snd (Parse function st)) =
   m_supportedPrecision (snd (ParsePart (strip_whitespace function) 0 (length (strip_whitespace function)) (Clear st)))"
  by (simp add: Parse_def Let_def split: prod.splits sum.splits)

lemma Parse_usedVariables:
  "m_usedVariables (snd (Parse function st)) =
   m_usedVariables (snd (ParsePart (strip_whitespace function) 0 (length (strip_whitespace function)) (Clear st)))"
  by (simp add: Parse_def Let_def split: prod.splits sum.splits)

lemma Parse_failure:
  assumes "fst (Parse function st) = Some e"
  shows "m_parsedFunc (snd (Parse function st)) = None \<and> m_inputFunc (snd (Parse function st)) = []"
proof -
  let ?input = "strip_whitespace function"
  obtain r st1 where pp: "ParsePart ?input 0 (length ?input) (Clear st) = (r, st1)"
    by (cases "ParsePart ?input 0 (length ?input) (Clear st)")
  with assms obtain e' where r: "r = Inl e'"
    by (cases r) (auto simp: Parse_def Let_def)
  have "scan_step (Clear st) st1"
    using scan_step_rec(2) [of "Clear st" ?input 0 "length ?input"] pp by simp
  then have "m_parsedFunc st1 = None" "m_inputFunc st1 = []"
    by (simp_all add: scan_step_def Clear_def)
  with pp r show ?thesis by (simp add: Parse_def Let_def)
qed

lemma Parse_success:
  assumes "fst (Parse function st) = None"
  shows "\<exists>tree. m_parsedFunc (snd (Parse function st)) = Some tree \<and>
           m_inputFunc (snd (Parse function st)) = strip_whitespace function \<and>
           tracked (snd (Parse function st)) tree"
proof -
  let ?input = "strip_whitespace function"
  obtain r st1 where pp: "ParsePart ?input 0 (length ?input) (Clear st) = (r, st1)"
    by (cases "ParsePart ?input 0 (length ?input) (Clear st)")
  with assms obtain tree where r: "r = Inr tree"
    by (cases r) (auto simp: Parse_def Let_def)
  from tracked_rec(2) [of ?input 0 "length ?input" "Clear st"] pp r
  have "tracked st1 tree" by blast
  with pp r show ?thesis by (simp add: Parse_def Let_def tracked_def)
qed

lemma Clear_fresh: "Clear st = FunctionParser_ctor"
  by (simp add: Clear_def FunctionParser_ctor_def)

lemma Parse_fresh: "Parse function st = Parse function FunctionParser_ctor"
  by (simp add: Parse_def Clear_fresh)

text \<open>
  Names.  \<open>decimal_value\<close> is the number a digit string denotes, and \<open>valid_z_name\<close> is the
  form of a variable name that the code accepts: \<open>z\<close>, then at most nine digits, the first
  of them not \<open>0\<close>.
\<close>

definition decimal_value :: "string \<Rightarrow> int" where
  "decimal_value ds = foldl (\<lambda>index d. index * 10 + int (digit_value d)) 0 ds"

definition valid_z_name :: "string \<Rightarrow> bool" where
  "valid_z_name name \<longleftrightarrow>
     (case name of
        [] \<Rightarrow> False
      | c # ds \<Rightarrow> c = CHR ''z'' \<and> list_all IsDigit ds \<and> length ds \<le> 9 \<and>
          (case ds of [] \<Rightarrow> True | d # _ \<Rightarrow> d \<noteq> CHR ''0''))"

lemma VariableIndex_loop_eq:
  "i \<le> length name \<Longrightarrow>
   VariableIndex_loop name i index =
     (if list_all IsDigit (drop i name)
      then Some (foldl (\<lambda>index d. index * 10 + int (digit_value d)) index (drop i name))
      else None)"
proof (induction name i index rule: VariableIndex_loop.induct)
  case (1 name i index)
  show ?case
  proof (cases "i < length name")
    case False
    with "1.prems" show ?thesis
      by (subst VariableIndex_loop.simps) simp
  next
    case True
    then have d: "drop i name = name ! i # drop (i + 1) name"
      by (simp add: Cons_nth_drop_Suc)
    from True have c: "char_at name i = name ! i" by (simp add: char_at_def)
    show ?thesis
    proof (cases "IsDigit (name ! i)")
      case False
      with True c d show ?thesis
        by (subst VariableIndex_loop.simps) simp
    next
      case digit: True
      with True c have "\<not> \<not> IsDigit (char_at name i)" by simp
      from "1.IH" [OF True this] True
      have "VariableIndex_loop name (i + 1) (index * 10 + int (digit_value (char_at name i))) =
        (if list_all IsDigit (drop (i + 1) name)
         then Some (foldl (\<lambda>index d. index * 10 + int (digit_value d))
                (index * 10 + int (digit_value (char_at name i))) (drop (i + 1) name))
         else None)" by simp
      with True c d digit show ?thesis
        by (subst VariableIndex_loop.simps) simp
    qed
  qed
qed

lemma ScanName_invalid:
  assumes "name \<noteq> ''i''" "name \<noteq> ''c''" "\<not> valid_z_name name"
  shows "ScanName name offset st =
     (Inl (FuncParseExcept UnexpectedSymbol
        (if char_at name 0 = CHR ''z'' then offset - length name else offset + 1 - length name)), st)"
proof (cases "char_at name 0 = CHR ''z''")
  case False
  with assms show ?thesis by (simp add: ScanName_def)
next
  case True
  then obtain ds where name: "name = CHR ''z'' # ds"
    by (cases name) (auto simp: char_at_def)
  have loop: "VariableIndex_loop name 1 0 =
      (if list_all IsDigit ds then Some (decimal_value ds) else None)"
    using VariableIndex_loop_eq [of 1 name 0] by (simp add: name decimal_value_def)
  show ?thesis
  proof (cases "(length name > 1 \<and> char_at name 1 = CHR ''0'') \<or> length name > 10")
    case True
    with assms \<open>char_at name 0 = CHR ''z''\<close> show ?thesis by (simp add: ScanName_def)
  next
    case False
    with assms(3) name have "\<not> list_all IsDigit ds"
      by (cases ds) (auto simp: valid_z_name_def char_at_def)
    with False assms \<open>char_at name 0 = CHR ''z''\<close> loop show ?thesis
      by (simp add: ScanName_def)
  qed
qed

lemma ScanName_valid:
  assumes "valid_z_name name"
  shows "ScanName name offset st =
     (Inr (Variable (decimal_value (tl name)), offset),
      st\<lparr>m_usedVariables := insert (decimal_value (tl name)) (m_usedVariables st)\<rparr>)"
proof -
  from assms obtain ds where name: "name = CHR ''z'' # ds" and digits: "list_all IsDigit ds"
    and short: "length ds \<le> 9" and lead: "ds = [] \<or> hd ds \<noteq> CHR ''0''"
    by (cases name) (auto simp: valid_z_name_def split: list.splits)
  have loop: "VariableIndex_loop name 1 0 = Some (decimal_value ds)"
    using VariableIndex_loop_eq [of 1 name 0] digits by (simp add: name decimal_value_def)
  have "\<not> ((length name > 1 \<and> char_at name 1 = CHR ''0'') \<or> length name > 10)"
    using short lead by (cases ds) (auto simp: name char_at_def)
  with loop show ?thesis
    by (simp add: ScanName_def name char_at_def)
qed

lemma IsLetter_not_brace: "IsLetter ch \<Longrightarrow> CHR ''('' \<noteq> ch"
  by (auto simp: IsLetter_def code_def)

lemma ScanEvaluated_name:
  assumes "IsLetter (char_at func offset)"
    and "name = take (CountNameLength func offset (size_t_sub len offset)) (drop offset func)"
    and "char_at func (offset + length name) \<noteq> CHR ''(''"
  shows "ScanEvaluated func offset len st = ScanName name (offset + length name) st"
proof -
  have "length name = CountNameLength func offset (size_t_sub len offset)"
    unfolding assms(2) by (rule CountNameLength_inside)
  with assms IsLetter_not_brace [OF assms(1)] show ?thesis
    by (subst ScanEvaluated.simps) (simp add: Let_def)
qed

lemma ScanEvaluated_invalid_name:
  assumes "IsLetter (char_at func offset)"
    and "name = take (CountNameLength func offset (size_t_sub len offset)) (drop offset func)"
    and "char_at func (offset + length name) \<noteq> CHR ''(''"
    and "name \<noteq> ''i''" "name \<noteq> ''c''" "\<not> valid_z_name name"
  shows "ScanEvaluated func offset len st =
     (Inl (FuncParseExcept UnexpectedSymbol
        (if char_at name 0 = CHR ''z'' then offset else offset + 1)), st)"
  using ScanEvaluated_name [OF assms(1-3)] ScanName_invalid [OF assms(4-6)]
  by simp

lemma IsNamePart_not_space: "IsNamePart ch \<Longrightarrow> \<not> isspace ch \<and> ch \<noteq> CHR 0x00"
  by (auto simp: IsNamePart_def IsLetter_def IsDigit_def isspace_def code_def)

lemma strip_whitespace_name:
  assumes "list_all IsNamePart name"
  shows "strip_whitespace name = name"
proof -
  from assms have tw: "takeWhile (\<lambda>ch. ch \<noteq> CHR 0x00) name = name"
    by (auto simp: list_all_iff dest: IsNamePart_not_space)
  from assms have fl: "filter (\<lambda>ch. \<not> isspace ch) name = name"
    by (simp add: filter_id_conv list_all_iff IsNamePart_not_space)
  show ?thesis by (simp only: strip_whitespace_def tw fl)
qed

lemma CountNameLength_loop_name:
  "list_all IsNamePart name \<Longrightarrow> \<not> IsNamePart (char_at (name @ rest) (length name)) \<Longrightarrow>
   i \<le> length name \<Longrightarrow> length name \<le> len \<Longrightarrow>
   CountNameLength_loop (name @ rest) 0 len i = length name"
proof (induction "name @ rest" "0 :: nat" len i rule: CountNameLength_loop.induct)
  case (1 len i)
  show ?case
  proof (cases "i < length name")
    case True
    with "1.prems" have part: "IsNamePart (char_at (name @ rest) (0 + i))"
      by (auto simp: char_at_def list_all_iff nth_append)
    from True "1.prems" have "i < len" by simp
    from "1.hyps" [OF this _ "1.prems"(1,2)] part True "1.prems"
    have "CountNameLength_loop (name @ rest) 0 len (i + 1) = length name" by simp
    with \<open>i < len\<close> part show ?thesis
      by (subst CountNameLength_loop.simps) simp
  next
    case False
    with "1.prems" have "i = length name" by simp
    with "1.prems" show ?thesis
      by (subst CountNameLength_loop.simps) simp
  qed
qed

lemma size_t_sub_zero: "len < 2 ^ 64 \<Longrightarrow> size_t_sub len 0 = len"
  by (simp add: size_t_sub_def)

lemma Tokenize_leading_name:
  assumes "name \<noteq> []" "IsLetter (hd name)" "list_all IsNamePart name"
    and "\<not> IsNamePart (char_at (name @ rest) (length name))"
    and "char_at (name @ rest) (length name) \<noteq> CHR ''(''"
    and "length (name @ rest) < 2 ^ 64"
  shows "Tokenize (name @ rest) 0 (length (name @ rest)) 0 True [] st =
     (case ScanName name (length name) st of
        (Inl e, st') \<Rightarrow> (Inl e, st')
      | (Inr (elem, i'), st') \<Rightarrow> Tokenize (name @ rest) 0 (length (name @ rest)) i' False [elem] st')"
proof -
  define func where "func = name @ rest"
  define len where "len = length func"
  have letter: "IsLetter (char_at func 0)"
    using assms(1,2) by (cases name) (auto simp: char_at_def func_def)
  have count: "CountNameLength func 0 (size_t_sub len 0) = length name"
    using CountNameLength_loop_name [OF assms(3,4), of 0 len] size_t_sub_zero [OF assms(6)]
    by (simp add: CountNameLength_def func_def len_def)
  then have nm: "name = take (CountNameLength func 0 (size_t_sub len 0)) (drop 0 func)"
    by (simp add: func_def)
  have se: "ScanEvaluated func 0 len st = ScanName name (length name) st"
    using ScanEvaluated_name [OF letter nm] assms(5) by (simp add: func_def)
  from assms(1) have pos: "0 < len" by (simp add: func_def len_def)
  have "Tokenize func 0 len 0 True [] st =
     (case ScanName name (length name) st of
        (Inl e, st') \<Rightarrow> (Inl e, st')
      | (Inr (elem, i'), st') \<Rightarrow> Tokenize func 0 len i' False [elem] st')"
    by (subst Tokenize.simps) (simp add: se pos split: prod.splits sum.splits)
  then show ?thesis by (simp only: func_def len_def)
qed

lemma Parse_invalid_name:
  assumes "strip_whitespace str = name @ rest"
    and "name \<noteq> []" "IsLetter (hd name)" "list_all IsNamePart name"
    and "\<not> IsNamePart (char_at (name @ rest) (length name))"
    and "char_at (name @ rest) (length name) \<noteq> CHR ''(''"
    and "length (name @ rest) < 2 ^ 64"
    and "name \<noteq> ''i''" "name \<noteq> ''c''" "\<not> valid_z_name name"
  shows "Parse str st =
     (Some (FuncParseExcept UnexpectedSymbol (if hd name = CHR ''z'' then 0 else 1)), Clear st)"
proof -
  let ?func = "name @ rest"
  let ?e = "FuncParseExcept UnexpectedSymbol (if hd name = CHR ''z'' then 0 else 1)"
  from assms(2) have hd: "char_at name 0 = hd name"
    by (cases name) (auto simp: char_at_def)
  have "ScanName name (length name) (Clear st) = (Inl ?e, Clear st)"
    using ScanName_invalid [OF assms(8-10), of "length name" "Clear st"] hd by simp
  then have "Tokenize ?func 0 (length ?func) 0 True [] (Clear st) = (Inl ?e, Clear st)"
    using Tokenize_leading_name [OF assms(2-7), of "Clear st"] by simp
  moreover from assms(2) have "length ?func \<noteq> 0" by simp
  ultimately have "ParsePart ?func 0 (length ?func) (Clear st) = (Inl ?e, Clear st)"
    by (subst ParsePart.simps) (simp del: append.simps length_append)
  then show ?thesis
    by (simp add: Parse_def Let_def assms(1) del: append.simps length_append)
qed

text \<open>
  Where a throw of the operand scanner ends up.  A \<open>call\<close> is an invocation of one of the three
  mutually recursive functions with its arguments (for the token loop: one iteration, with
  the cursor, the flag and the tokens so far), \<open>thrown\<close> is the exception it ends with,
  together with the parser at the throw, and \<open>calls a b\<close> says that invocation \<open>a\<close> makes the
  invocation \<open>b\<close>: the operand scanner calls \<^verbatim>\<open>ParsePart\<close> on the span between parentheses and
  itself on the argument of a function; \<^verbatim>\<open>ParsePart\<close> enters the token loop; an iteration of
  the loop calls the operand scanner, and goes on to the next iteration when the scanner
  has returned.  None of the functions catches an exception, so a throw of a callee is the
  throw of its caller.
\<close>

datatype call =
    ScanEvaluated_call string nat nat FunctionParser
  | ParsePart_call string nat nat FunctionParser
  | Tokenize_call string nat nat nat bool "FuncElem list" FunctionParser

fun thrown :: "call \<Rightarrow> (FuncParseExcept \<times> FunctionParser) option" where
  "thrown (ScanEvaluated_call func offset len st) =
     (case ScanEvaluated func offset len st of (Inl e, st') \<Rightarrow> Some (e, st') | (Inr r, st') \<Rightarrow> None)"
| "thrown (ParsePart_call func offset len st) =
     (case ParsePart func offset len st of (Inl e, st') \<Rightarrow> Some (e, st') | (Inr r, st') \<Rightarrow> None)"
| "thrown (Tokenize_call func offset len i scanEvaluated tokenized st) =
     (case Tokenize func offset len i scanEvaluated tokenized st of
        (Inl e, st') \<Rightarrow> Some (e, st') | (Inr r, st') \<Rightarrow> None)"

inductive calls :: "call \<Rightarrow> call \<Rightarrow> bool" where
  braces:
    "CHR ''('' = char_at func offset \<Longrightarrow>
     CountBetweenBraces func (offset + 1) len = Inr bracedLength \<Longrightarrow>
     calls (ScanEvaluated_call func offset len st) (ParsePart_call func (offset + 1) bracedLength st)"
| argument:
    "CHR ''('' \<noteq> char_at func offset \<Longrightarrow> IsLetter (char_at func offset) \<Longrightarrow>
     nameLength = CountNameLength func offset (size_t_sub len offset) \<Longrightarrow>
     char_at func (offset + nameLength) = CHR ''('' \<Longrightarrow>
     GetFunctionNameApplyPrecision (take nameLength (drop offset func)) (offset + nameLength) st =
       (Inr n, st') \<Longrightarrow>
     calls (ScanEvaluated_call func offset len st) (ScanEvaluated_call func (offset + nameLength) len st')"
| token_loop:
    "len \<noteq> 0 \<Longrightarrow>
     calls (ParsePart_call func offset len st) (Tokenize_call func offset len offset True [] st)"
| operand:
    "i < offset + len \<Longrightarrow>
     calls (Tokenize_call func offset len i True tokenized st)
       (ScanEvaluated_call func i (len + offset - i) st)"
| after_operand:
    "i < offset + len \<Longrightarrow> ScanEvaluated func i (len + offset - i) st = (Inr (elem, i'), st') \<Longrightarrow>
     calls (Tokenize_call func offset len i True tokenized st)
       (Tokenize_call func offset len i' False (tokenized @ [elem]) st')"
| after_operator:
    "i < offset + len \<Longrightarrow> ScanOperator func i = Inr (elem, i') \<Longrightarrow>
     calls (Tokenize_call func offset len i False tokenized st)
       (Tokenize_call func offset len i' True (tokenized @ [elem]) st)"

text \<open>
  \<open>Parse_scans function st offset len st'\<close>: during \<^verbatim>\<open>Parse(function)\<close>, started on the parser
  \<open>st\<close>, the operand scanner is called at \<open>offset\<close> with the remaining length \<open>len\<close> on the
  parser \<open>st'\<close>.
\<close>

definition Parse_scans :: "string \<Rightarrow> FunctionParser \<Rightarrow> nat \<Rightarrow> nat \<Rightarrow> FunctionParser \<Rightarrow> bool" where
  "Parse_scans function st offset len st' \<longleftrightarrow>
     rtranclp calls
       (ParsePart_call (strip_whitespace function) 0 (length (strip_whitespace function)) (Clear st))
       (ScanEvaluated_call (strip_whitespace function) offset len st')"

text \<open>
  \<open>reads_whole_name func offset len name\<close>: the cursor stands on a letter, \<open>name\<close> is the whole
  run of name characters that starts there, and the bound \<open>length - offset\<close> that the scanner
  hands to \<^verbatim>\<open>CountNameLength\<close> is not smaller than the run, so that the scanner reads the name
  in full.  At the start of the input the bound is the length of the input.
\<close>

definition reads_whole_name :: "string \<Rightarrow> nat \<Rightarrow> nat \<Rightarrow> string \<Rightarrow> bool" where
  "reads_whole_name func offset len name \<longleftrightarrow>
     IsLetter (char_at func offset) \<and> list_all IsNamePart name \<and>
     name = take (length name) (drop offset func) \<and>
     \<not> IsNamePart (char_at func (offset + length name)) \<and>
     length name \<le> size_t_sub len offset"

lemma calls_thrown:
  "calls a b \<Longrightarrow> thrown b = Some x \<Longrightarrow> thrown a = Some x"
proof (induction rule: calls.induct)
  case (braces func offset len bracedLength st)
  then show ?case
    by (subst ScanEvaluated.simps [abs_def] thrown.simps)
       (auto simp: ScanEvaluated.simps [of func offset] split: prod.splits sum.splits)
next
  case (argument func offset nameLength len st n st')
  then show ?case
    by (auto simp: ScanEvaluated.simps [of func offset] Let_def split: prod.splits sum.splits)
next
  case (token_loop len func offset st)
  then show ?case
    by (auto simp: ParsePart.simps [of func offset] split: prod.splits sum.splits)
next
  case (operand i offset len func tokenized st)
  then show ?case
    by (auto simp: Tokenize.simps [of func offset len i] split: prod.splits sum.splits)
next
  case (after_operand i offset len func st elem i' st' tokenized)
  then show ?case
    by (auto simp: Tokenize.simps [of func offset len i] split: prod.splits sum.splits)
next
  case (after_operator i offset len func elem i' tokenized st)
  then show ?case
    by (auto simp: Tokenize.simps [of func offset len i] split: prod.splits sum.splits)
qed

lemma rtranclp_calls_thrown:
  "rtranclp calls a b \<Longrightarrow> thrown b = Some x \<Longrightarrow> thrown a = Some x"
  by (induction rule: rtranclp_induct) (auto intro: calls_thrown)

lemma Parse_scans_thrown:
  assumes "Parse_scans function st offset len st'"
    and "ScanEvaluated (strip_whitespace function) offset len st' = (Inl e, st'')"
  shows "Parse function st = (Some e, st'')"
proof -
  let ?input = "strip_whitespace function"
  have "thrown (ScanEvaluated_call ?input offset len st') = Some (e, st'')"
    using assms(2) by simp
  with assms(1) have "thrown (ParsePart_call ?input 0 (length ?input) (Clear st)) = Some (e, st'')"
    unfolding Parse_scans_def by (rule rtranclp_calls_thrown)
  then show ?thesis
    by (auto simp: Parse_def Let_def split: prod.splits sum.splits)
qed

lemma CountNameLength_loop_run:
  "\<forall>k < n. IsNamePart (char_at func (offset + k)) \<Longrightarrow> \<not> IsNamePart (char_at func (offset + n)) \<Longrightarrow>
   i \<le> n \<Longrightarrow> n \<le> len \<Longrightarrow> CountNameLength_loop func offset len i = n"
proof (induction "n - i" arbitrary: i)
  case 0
  then have "i = n" by simp
  with 0 show ?case by (subst CountNameLength_loop.simps) simp
next
  case (Suc d)
  then have "i < n" by simp
  with Suc.prems have "i < len" "IsNamePart (char_at func (offset + i))" by auto
  moreover have "CountNameLength_loop func offset len (i + 1) = n"
    using Suc \<open>i < n\<close> by (intro Suc.hyps) auto
  ultimately show ?case by (subst CountNameLength_loop.simps) simp
qed

lemma CountNameLength_whole_name:
  assumes "list_all IsNamePart name" "name = take (length name) (drop offset func)"
    and "\<not> IsNamePart (char_at func (offset + length name))" "length name \<le> bound"
  shows "CountNameLength func offset bound = length name"
proof -
  have len: "length name \<le> length func - offset"
    using arg_cong [OF assms(2), of length] by simp
  have "\<forall>k < length name. IsNamePart (char_at func (offset + k))"
  proof (intro allI impI)
    fix k assume k: "k < length name"
    with len have "offset + k < length func" by simp
    moreover have "name ! k = func ! (offset + k)"
      using k len by (subst assms(2)) simp
    moreover from assms(1) k have "IsNamePart (name ! k)" by (simp add: list_all_length)
    ultimately show "IsNamePart (char_at func (offset + k))" by (simp add: char_at_def)
  qed
  from CountNameLength_loop_run [OF this assms(3) _ assms(4), of 0] show ?thesis
    by (simp add: CountNameLength_def)
qed

lemma ScanEvaluated_whole_invalid_name:
  assumes "IsLetter (char_at func offset)"
    and "list_all IsNamePart name" "name = take (length name) (drop offset func)"
    and "\<not> IsNamePart (char_at func (offset + length name))"
    and "length name \<le> size_t_sub len offset"
    and "char_at func (offset + length name) \<noteq> CHR ''(''"
    and "name \<noteq> ''i''" "name \<noteq> ''c''" "\<not> valid_z_name name"
  shows "ScanEvaluated func offset len st =
     (Inl (FuncParseExcept UnexpectedSymbol (if hd name = CHR ''z'' then offset else offset + 1)), st)"
proof -
  have count: "CountNameLength func offset (size_t_sub len offset) = length name"
    by (rule CountNameLength_whole_name [OF assms(2-5)])
  have nm: "name = take (CountNameLength func offset (size_t_sub len offset)) (drop offset func)"
    unfolding count by (rule assms(3))
  have "name \<noteq> []"
    using assms(1,4) by (auto simp: IsNamePart_def)
  then have hd: "char_at name 0 = hd name"
    by (cases name) (auto simp: char_at_def)
  from ScanEvaluated_invalid_name [OF assms(1) nm assms(6-9), of st] hd show ?thesis
    by simp
qed

lemma reads_whole_name_scanned:
  assumes "reads_whole_name func offset len name"
  shows "take (CountNameLength func offset (size_t_sub len offset)) (drop offset func) = name"
proof -
  from assms have "CountNameLength func offset (size_t_sub len offset) = length name"
    unfolding reads_whole_name_def by (intro CountNameLength_whole_name) simp_all
  with assms show ?thesis by (simp add: reads_whole_name_def)
qed

lemma ScanEvaluated_reads_invalid_name:
  assumes "reads_whole_name func offset len name"
    and "char_at func (offset + length name) \<noteq> CHR ''(''"
    and "name \<noteq> ''i''" "name \<noteq> ''c''" "\<not> valid_z_name name"
  shows "ScanEvaluated func offset len st =
     (Inl (FuncParseExcept UnexpectedSymbol (if hd name = CHR ''z'' then offset else offset + 1)), st)"
  using assms unfolding reads_whole_name_def
  by (intro ScanEvaluated_whole_invalid_name) simp_all

lemma Reduce_single:
  "\<not> IsOperatorOf 2 elem \<Longrightarrow> \<not> IsOperatorOf 1 elem \<Longrightarrow> \<not> IsOperatorOf 0 elem \<Longrightarrow>
   Reduce offset len [elem] False = Inr elem"
  by (simp add: Reduce_def ReduceLoop.simps ReducePass.simps)

lemma Parse_valid_z_name:
  assumes "valid_z_name name"
  shows "Parse name st =
     (None, \<lparr>m_usedVariables = {decimal_value (tl name)}, m_supportedPrecision = Extended,
        m_inputFunc = name, m_parsedFunc = Some (Variable (decimal_value (tl name)))\<rparr>)"
proof -
  from assms obtain ds where name: "name = CHR ''z'' # ds" and digits: "list_all IsDigit ds"
    and short: "length ds \<le> 9"
    by (cases name) (auto simp: valid_z_name_def)
  have parts: "list_all IsNamePart name"
    using digits by (auto simp: name list_all_iff IsNamePart_def IsLetter_def code_def)
  have strip: "strip_whitespace name = name" by (rule strip_whitespace_name [OF parts])
  let ?v = "decimal_value (tl name)"
  let ?st1 = "(Clear st)\<lparr>m_usedVariables := insert ?v (m_usedVariables (Clear st))\<rparr>"
  have sn: "ScanName name (length name) (Clear st) = (Inr (Variable ?v, length name), ?st1)"
    by (rule ScanName_valid [OF assms])
  have "name \<noteq> []" "IsLetter (hd name)" "\<not> IsNamePart (char_at (name @ []) (length name))"
    "char_at (name @ []) (length name) \<noteq> CHR ''(''" "length (name @ []) < 2 ^ 64"
    using short by (auto simp: name IsLetter_def IsNamePart_def IsDigit_def code_def char_at_def)
  from Tokenize_leading_name [OF this(1,2) parts this(3-5), of "Clear st"] sn
  have "Tokenize name 0 (length name) 0 True [] (Clear st) =
      Tokenize name 0 (length name) (length name) False [Variable ?v] ?st1"
    by simp
  also have "\<dots> = (Inr ([Variable ?v], False), ?st1)"
    by (subst Tokenize.simps) simp
  finally have "ParsePart name 0 (length name) (Clear st) = (Inr (Variable ?v), ?st1)"
    by (subst ParsePart.simps) (simp add: name Reduce_single)
  then show ?thesis
    by (simp add: Parse_def Let_def strip Clear_def)
qed

lemma decimal_value_bound:
  "list_all IsDigit ds \<Longrightarrow> 0 \<le> decimal_value ds \<and> decimal_value ds < 10 ^ length ds"
proof (induction ds rule: rev_induct)
  case Nil
  show ?case by (simp add: decimal_value_def)
next
  case (snoc d ds)
  then have "digit_value d \<le> 9"
    by (auto simp: IsDigit_def digit_value_def code_def)
  with snoc show ?case
    by (auto simp: decimal_value_def)
qed

text \<open>
  The reducer on a chain of operands joined by operators of one tier.  \<open>tier\<close> is the
  precedence that \<^verbatim>\<open>ScanOperator\<close> gives each operator, an operand is a node that is not an
  operator (a variable, a constant or a function call), \<open>chain_tail p rest\<close> is the token
  sequence \<open>op\<^sub>1 x\<^sub>1 op\<^sub>2 x\<^sub>2 \<dots>\<close> as the token loop leaves it, and \<open>left_fold\<close> is the tree that
  nests to the left.
\<close>

fun tier :: "OperatorName \<Rightarrow> int" where
  "tier add_op = 0"
| "tier sub_op = 0"
| "tier mul_op = 1"
| "tier div_op = 1"
| "tier pow_op = 2"

fun is_operand :: "FuncElem \<Rightarrow> bool" where
  "is_operand (Operator name precedence lhs rhs) = False"
| "is_operand elem = True"

lemma is_operand_IsOperatorOf [simp]: "is_operand elem \<Longrightarrow> IsOperatorOf precedence elem = False"
  by (cases elem) auto

definition chain_tail :: "int \<Rightarrow> (OperatorName \<times> FuncElem) list \<Rightarrow> FuncElem list" where
  "chain_tail p rest = concat (map (\<lambda>(name, x). [Operator name p None None, x]) rest)"

definition left_fold :: "int \<Rightarrow> FuncElem \<Rightarrow> (OperatorName \<times> FuncElem) list \<Rightarrow> FuncElem" where
  "left_fold p a rest = foldl (\<lambda>acc (name, x). Operator name p (Some acc) (Some x)) a rest"

lemma chain_tail_simps [simp]:
  "chain_tail p [] = []"
  "chain_tail p ((name, x) # rest) = Operator name p None None # x # chain_tail p rest"
  by (simp_all add: chain_tail_def)

lemma left_fold_simps [simp]:
  "left_fold p a [] = a"
  "left_fold p a ((name, x) # rest) = left_fold p (Operator name p (Some a) (Some x)) rest"
  by (simp_all add: left_fold_def)

lemma length_chain_tail [simp]: "length (chain_tail p rest) = 2 * length rest"
  by (induction rest) auto

lemma ReducePass_skip:
  "\<forall>k < tokenCount. \<not> IsOperatorOf q (tokenized ! k) \<Longrightarrow> i \<le> tokenCount \<Longrightarrow>
   ReducePass q tokenized tokenCount i i = Inr (tokenized, tokenCount)"
proof (induction "tokenCount - i" arbitrary: i)
  case 0
  then show ?case by (subst ReducePass.simps) simp
next
  case (Suc n)
  then have "i < tokenCount" "\<not> IsOperatorOf q (tokenized ! i)" by auto
  moreover have "ReducePass q tokenized tokenCount (i + 1) (i + 1) = Inr (tokenized, tokenCount)"
    using Suc by (intro Suc.hyps) auto
  ultimately show ?case by (subst ReducePass.simps) simp
qed

lemma ReducePass_fold:
  "list_all (\<lambda>(name, x). is_operand x) rest \<Longrightarrow>
   \<exists>tokenized'. ReducePass p (acc # junk @ chain_tail p rest) (1 + length junk + 2 * length rest) 1
       (1 + length junk) = Inr (tokenized', 1) \<and>
     tokenized' ! 0 = left_fold p acc rest \<and> length tokenized' = 1 + length junk + 2 * length rest"
proof (induction rest arbitrary: acc junk)
  case Nil
  show ?case by (subst ReducePass.simps) simp
next
  case (Cons nx rest)
  obtain name x where nx: "nx = (name, x)" by (cases nx)
  let ?op = "Operator name p None None"
  let ?toks = "acc # junk @ chain_tail p (nx # rest)"
  let ?n = "1 + length junk + 2 * length (nx # rest)"
  let ?r = "1 + length junk"
  have at_r: "?toks ! ?r = ?op" by (simp add: nx nth_append)
  have at_r1: "?toks ! (?r + 1) = x"
    using nth_append_length_plus [of junk "?op # x # chain_tail p rest" 1] by (simp add: nx)
  have upd: "?toks[1 - 1 := SetParams (?toks ! ?r) (?toks ! (1 - 1)) (?toks ! (?r + 1))] =
      Operator name p (Some acc) (Some x) # (junk @ [?op, x]) @ chain_tail p rest"
    unfolding at_r at_r1 by (simp add: nx)
  from Cons.prems have rest: "list_all (\<lambda>(name, x). is_operand x) rest" by simp
  from Cons.IH [OF rest, of "Operator name p (Some acc) (Some x)" "junk @ [?op, x]"]
  obtain tokenized' where
    run: "ReducePass p (Operator name p (Some acc) (Some x) # (junk @ [?op, x]) @ chain_tail p rest)
        (1 + length (junk @ [?op, x]) + 2 * length rest) 1 (1 + length (junk @ [?op, x])) =
        Inr (tokenized', 1)" and
    res: "tokenized' ! 0 = left_fold p (Operator name p (Some acc) (Some x)) rest"
      "length tokenized' = 1 + length (junk @ [?op, x]) + 2 * length rest"
    by blast
  have n: "1 + length (junk @ [?op, x]) + 2 * length rest = ?n"
    "1 + length (junk @ [?op, x]) = ?r + 2" by simp_all
  have "ReducePass p ?toks ?n 1 ?r =
      ReducePass p (?toks[1 - 1 := SetParams (?toks ! ?r) (?toks ! (1 - 1)) (?toks ! (?r + 1))]) ?n 1 (?r + 2)"
    by (subst ReducePass.simps, unfold at_r) simp
  also have "\<dots> = Inr (tokenized', 1)"
    unfolding upd using run by simp
  finally show ?case using res by (auto simp: nx)
qed


lemma ReduceLoop_unfold:
  "ReduceLoop 2 t n =
     (case ReducePass 2 t n 0 0 of
        Inl e \<Rightarrow> Inl e
      | Inr (t2, c2) \<Rightarrow>
          (case ReducePass 1 t2 c2 0 0 of
             Inl e \<Rightarrow> Inl e
           | Inr (t1, c1) \<Rightarrow>
               (case ReducePass 0 t1 c1 0 0 of Inl e \<Rightarrow> Inl e | Inr (t0, c0) \<Rightarrow> Inr (t0, c0))))"
  by (simp add: ReduceLoop.simps split: sum.splits prod.splits)

lemma left_fold_not_operator_of:
  "q \<noteq> p \<Longrightarrow> \<not> IsOperatorOf q acc \<Longrightarrow> \<not> IsOperatorOf q (left_fold p acc rest)"
  by (induction rest arbitrary: acc) auto

lemma chain_tail_not_operator_of:
  "q \<noteq> p \<Longrightarrow> list_all (\<lambda>(name, x). is_operand x) rest \<Longrightarrow>
   \<forall>t \<in> set (chain_tail p rest). \<not> IsOperatorOf q t"
  by (induction rest) auto

lemma ReducePass_chain_other:
  assumes "q \<noteq> p" "is_operand a" "list_all (\<lambda>(name, x). is_operand x) rest"
  shows "ReducePass q (a # chain_tail p rest) (1 + 2 * length rest) 0 0 =
     Inr (a # chain_tail p rest, 1 + 2 * length rest)"
proof (rule ReducePass_skip)
  show "\<forall>k < 1 + 2 * length rest. \<not> IsOperatorOf q ((a # chain_tail p rest) ! k)"
  proof (intro allI impI)
    fix k assume "k < 1 + 2 * length rest"
    then have "(a # chain_tail p rest) ! k \<in> set (a # chain_tail p rest)"
      by (intro nth_mem) simp
    with chain_tail_not_operator_of [OF assms(1,3)] assms(2)
    show "\<not> IsOperatorOf q ((a # chain_tail p rest) ! k)" by auto
  qed
qed simp

lemma ReducePass_chain_same:
  assumes "is_operand a" "list_all (\<lambda>(name, x). is_operand x) rest"
  shows "\<exists>tokenized'. ReducePass p (a # chain_tail p rest) (1 + 2 * length rest) 0 0 =
       Inr (tokenized', 1) \<and> tokenized' ! 0 = left_fold p a rest"
proof -
  have "ReducePass p (a # chain_tail p rest) (1 + 2 * length rest) 0 0 =
      ReducePass p (a # chain_tail p rest) (1 + 2 * length rest) 1 1"
    using assms(1) by (subst ReducePass.simps) simp
  with ReducePass_fold [OF assms(2), of p a "[]"] show ?thesis by auto
qed

lemma ReducePass_single_other:
  assumes "\<not> IsOperatorOf q (tokenized ! 0)"
  shows "ReducePass q tokenized 1 0 0 = Inr (tokenized, 1)"
  using assms by (intro ReducePass_skip) auto

lemma Reduce_chain:
  assumes "is_operand a" "list_all (\<lambda>(name, x). is_operand x) rest" "p = 0 \<or> p = 1 \<or> p = 2"
  shows "Reduce offset len (a # chain_tail p rest) False = Inr (left_fold p a rest)"
proof -
  let ?toks = "a # chain_tail p rest"
  have n: "length ?toks = 1 + 2 * length rest" by simp
  from ReducePass_chain_same [OF assms(1,2), of p] obtain tokenized' where
    same: "ReducePass p ?toks (1 + 2 * length rest) 0 0 = Inr (tokenized', 1)" and
    res: "tokenized' ! 0 = left_fold p a rest"
    by blast
  have after: "ReducePass q tokenized' 1 0 0 = Inr (tokenized', 1)" if "q \<noteq> p" for q
    using left_fold_not_operator_of [OF that, of a rest] assms(1) res
    by (intro ReducePass_single_other) simp
  have before: "ReducePass q ?toks (1 + 2 * length rest) 0 0 = Inr (?toks, 1 + 2 * length rest)"
    if "q \<noteq> p" for q
    using that assms(1,2) by (rule ReducePass_chain_other)
  have "ReduceLoop 2 ?toks (1 + 2 * length rest) = Inr (tokenized', 1)"
    using assms(3)
  proof (elim disjE)
    assume "p = 0"
    then show ?thesis
      using before [of 2] before [of 1] same by (simp add: ReduceLoop_unfold)
  next
    assume "p = 1"
    then show ?thesis
      using before [of 2] same after [of 0] by (simp add: ReduceLoop_unfold)
  next
    assume "p = 2"
    then show ?thesis
      using same after [of 1] after [of 0] by (simp add: ReduceLoop_unfold)
  qed
  then show ?thesis
    using res by (simp add: Reduce_def del: chain_tail_simps)
qed

text \<open>
  A chain whose first operand is itself an operator node of the chain's tier, as a
  parenthesised expression is when \<^verbatim>\<open>ParsePart\<close> has returned it: the passes of the higher
  tiers leave the tokens alone, and the pass of the chain's tier takes the first token for
  an operator with nothing to its left.
\<close>

lemma ReducePass_chain_other_first:
  assumes "q \<noteq> p" "\<not> IsOperatorOf q a" "list_all (\<lambda>(name, x). is_operand x) rest"
  shows "ReducePass q (a # chain_tail p rest) (1 + 2 * length rest) 0 0 =
     Inr (a # chain_tail p rest, 1 + 2 * length rest)"
proof (rule ReducePass_skip)
  show "\<forall>k < 1 + 2 * length rest. \<not> IsOperatorOf q ((a # chain_tail p rest) ! k)"
  proof (intro allI impI)
    fix k assume "k < 1 + 2 * length rest"
    then have "(a # chain_tail p rest) ! k \<in> set (a # chain_tail p rest)"
      by (intro nth_mem) simp
    with chain_tail_not_operator_of [OF assms(1,3)] assms(2)
    show "\<not> IsOperatorOf q ((a # chain_tail p rest) ! k)" by auto
  qed
qed simp

lemma Reduce_operator_first:
  assumes "list_all (\<lambda>(name, x). is_operand x) rest" "p = 0 \<or> p = 1 \<or> p = 2"
  shows "Reduce offset len (Operator name p lhs rhs # chain_tail p rest) False =
     Inl (FuncParseExcept EmptyFunction 0)"
proof -
  let ?toks = "Operator name p lhs rhs # chain_tail p rest"
  have same: "ReducePass p ?toks (1 + 2 * length rest) 0 0 = Inl (FuncParseExcept EmptyFunction 0)"
    by (subst ReducePass.simps) simp
  have before: "ReducePass q ?toks (1 + 2 * length rest) 0 0 = Inr (?toks, 1 + 2 * length rest)"
    if "q \<noteq> p" for q
    using that assms(1) by (intro ReducePass_chain_other_first) simp_all
  have "ReduceLoop 2 ?toks (1 + 2 * length rest) = Inl (FuncParseExcept EmptyFunction 0)"
    using assms(2)
  proof (elim disjE)
    assume "p = 0"
    then show ?thesis
      using before [of 2] before [of 1] same by (simp add: ReduceLoop_unfold)
  next
    assume "p = 1"
    then show ?thesis
      using before [of 2] same by (simp add: ReduceLoop_unfold)
  next
    assume "p = 2"
    then show ?thesis
      using same by (simp add: ReduceLoop_unfold)
  qed
  then show ?thesis
    by (simp add: Reduce_def del: chain_tail_simps)
qed

lemma ScanOperator_tier:
  "ScanOperator func offset = Inr (elem, offset') \<Longrightarrow>
   \<exists>name. elem = Operator name (tier name) None None"
  by (auto simp: ScanOperator_def Let_def split: if_splits)

lemma Reduce_three:
  assumes "is_operand a" "is_operand b" "is_operand c"
  shows "Reduce offset len
     [a, Operator n1 (tier n1) None None, b, Operator n2 (tier n2) None None, c] False =
     Inr (if tier n2 \<le> tier n1
          then Operator n2 (tier n2) (Some (Operator n1 (tier n1) (Some a) (Some b))) (Some c)
          else Operator n1 (tier n1) (Some a) (Some (Operator n2 (tier n2) (Some b) (Some c))))"
  using assms
  by (cases n1; cases n2) (simp_all add: Reduce_def ReduceLoop.simps ReducePass.simps)

section \<open>The claims\<close>

subsection \<open>C1: the number scanner\<close>

lemma ScanNumber_one_fraction_digit:
  assumes "IsDigit d1" "IsDigit d2"
  shows "ScanNumber [d1, CHR ''.'', d2] 0 =
     Inr (real (digit_value d1) + 10 * real (digit_value d2), 3)"
proof -
  have nd: "\<not> IsDigit CHR ''.''" "\<not> IsDigit CHR 0x00" "d1 \<noteq> CHR ''-''"
    using assms by (auto simp: IsDigit_def code_def)
  have int: "ScanNumber_int [d1, CHR ''.'', d2] 0 0 False = (1, real (digit_value d1), True)"
    using assms nd
    by (subst ScanNumber_int.simps, subst ScanNumber_int.simps) (simp add: char_at_def)
  have frac: "ScanNumber_frac [d1, CHR ''.'', d2] (Suc 0) (real (digit_value d1)) 1 True =
      (3, real (digit_value d1) + 10 * real (digit_value d2), True)"
    using assms nd
    by (subst ScanNumber_frac.simps, subst ScanNumber_frac.simps) (simp add: char_at_def)
  show ?thesis
    using nd by (simp add: ScanNumber_def Let_def int frac) (simp add: char_at_def)
qed

text \<open>
  C1 says that the number scanner returns the decimal value of the literal it matches, so
  that \<open>1.5\<close> yields the constant 1.5.  The code divides \<open>fractionalDiv\<close> by ten before it
  divides the digit by it, so the first fractional digit is multiplied by 10, the second by
  100, and so on: on \<open>1.5\<close> the scanner consumes the three characters and returns 51, and
  \<^verbatim>\<open>Parse\<close> stores the constant 51, while - 12.25 is read as - 532.  In general a literal
  of one digit, a point and one digit \<open>d\<^sub>1.d\<^sub>2\<close> is read as \<open>d\<^sub>1 + 10 d\<^sub>2\<close>.
\<close>

theorem C1_ScanNumber_scales_fraction_up:
  "(IsDigit d1 \<and> IsDigit d2 \<longrightarrow>
      ScanNumber [d1, CHR ''.'', d2] 0 =
        Inr (real (digit_value d1) + 10 * real (digit_value d2), 3)) \<and>
   ScanNumber ''1.5'' 0 = Inr (51, 3) \<and>
   PseudoCode (snd (Parse ''1.5'' FunctionParser_ctor)) = Some (Constant (Complex 51 0)) \<and>
   PseudoCode (snd (Parse ''1.5'' FunctionParser_ctor)) \<noteq> Some (Constant (Complex 1.5 0)) \<and>
   ScanNumber ''-12.25'' 0 = Inr (- 532, 6)"
proof -
  have "ScanNumber ''1.5'' 0 = Inr (51, 3)"
    by (simp add: char_defs scan_defs Let_def)
  moreover have "ScanNumber ''-12.25'' 0 = Inr (- 532, 6)"
    by (simp add: char_defs scan_defs Let_def)
  ultimately show ?thesis
    using ScanNumber_one_fraction_digit [of d1 d2]
    by (simp add: Parse_one_point_five PseudoCode_def)
qed

theorem C1_ScanNumber_witness:
  "IsDigit CHR ''2'' \<and> IsDigit CHR ''5'' \<and> ScanNumber ''2.5'' 0 = Inr (52, 3)"
  using C1_ScanNumber_scales_fraction_up [of "CHR ''2''" "CHR ''5''"]
  by (simp add: IsDigit_def digit_value_def code_def)

subsection \<open>C2: the brace matcher and nested parentheses\<close>

text \<open>
  C2 says that the brace matcher, called with the cursor just past an opening parenthesis,
  returns the distance to the matching closing parenthesis, so that \<open>((z))\<close> parses as one
  operand.  The matcher starts counting one character further on and never looks at the
  character under the cursor: on \<open>((z))\<close>, called at offset 1, it misses the inner \<open>(\<close> and
  returns 2, the distance to the first \<open>)\<close>, where the matching one is at distance 3.
  \<^verbatim>\<open>Parse\<close> then fails with an operator-expected error at offset 4.  The input \<open>((z)\<close>, which
  lacks a closing parenthesis, is accepted and parses to the variable \<open>z\<close>.
\<close>

theorem C2_nested_braces_rejected:
  "CountBetweenBraces ''((z))'' 1 5 = Inr 2 \<and>
   fst (Parse ''((z))'' FunctionParser_ctor) = Some (FuncParseExcept OperatorExpected 4) \<and>
   PseudoCode (snd (Parse ''((z))'' FunctionParser_ctor)) = None \<and>
   fst (Parse ''((z)'' FunctionParser_ctor) = None \<and>
   PseudoCode (snd (Parse ''((z)'' FunctionParser_ctor)) = Some (Variable 0)"
proof -
  have "CountBetweenBraces ''((z))'' 1 5 = Inr 2"
    by (simp add: char_defs scan_defs)
  moreover have "Parse ''((z)'' FunctionParser_ctor =
      (None, \<lparr>m_usedVariables = {0}, m_supportedPrecision = Extended, m_inputFunc = ''((z)'',
         m_parsedFunc = Some (Variable 0)\<rparr>)"
    by (simp add: run_defs)
  ultimately show ?thesis
    by (simp add: Parse_nested_braces PseudoCode_def)
qed

subsection \<open>C3: parsing and evaluating \<open>z*z+c\<close>\<close>

text \<open>
  C3: parsing \<open>z*z+c\<close> produces the tree \<open>add (mul (Variable 0) (Variable 0)) (Variable (- 1))\<close>,
  and the evaluator for complex numbers built from that parse, with variable 0 set to
  \<open>0.5 + 0i\<close> and variable \<open>- 1\<close> set to \<open>0 + 0i\<close>, returns \<open>0.25 + 0i\<close>.  This holds from any
  state of the parser and for any behaviour of the library functions.
\<close>

theorem C3_parse_and_evaluate_z_times_z_plus_c:
  "fst (Parse ''z*z+c'' st) = None \<and>
   PseudoCode (snd (Parse ''z*z+c'' st)) =
     Some (Operator add_op 0
       (Some (Operator mul_op 1 (Some (Variable 0)) (Some (Variable 0))))
       (Some (Variable (- 1)))) \<and>
   (\<exists>ev. FunctionEvaluator_ctor (complex_double lib) (snd (Parse ''z*z+c'' st)) = Some (Inr ev) \<and>
      call (assign (assign ev 0 (Complex 0.5 0)) (- 1) (Complex 0 0)) = Some (Complex 0.25 0))"
  by (simp add: Parse_z_times_z_plus_c eval_defs complex_eq_iff)

subsection \<open>C4: the precision capability\<close>

lemma Parse_ang:
  "Parse ''ang(z)'' st =
     (None, \<lparr>m_usedVariables = {0}, m_supportedPrecision = Single, m_inputFunc = ''ang(z)'',
        m_parsedFunc = Some (Function ang_fn (Some (Variable 0)))\<rparr>)"
  by (simp add: run_defs)

lemma Parse_sin:
  "Parse ''sin(z)'' st =
     (None, \<lparr>m_usedVariables = {0}, m_supportedPrecision = Single, m_inputFunc = ''sin(z)'',
        m_parsedFunc = Some (Function sin_fn (Some (Variable 0)))\<rparr>)"
  by (simp add: run_defs)

lemma Parse_re_plus_im:
  "Parse ''re(z)+im(c)'' st =
     (None, \<lparr>m_usedVariables = {- 1, 0}, m_supportedPrecision = Extended,
        m_inputFunc = ''re(z)+im(c)'',
        m_parsedFunc = Some (Operator add_op 0 (Some (Function re_fn (Some (Variable 0))))
          (Some (Function im_fn (Some (Variable (- 1))))))\<rparr>)"
  by (simp add: run_defs)

text \<open>
  C4 says that the precision stays at its initial level as long as every function used is
  one of \<open>pos\<close>, \<open>re\<close>, \<open>im\<close>, \<open>ang\<close>.  The switch in \<^verbatim>\<open>GetFunctionNameApplyPrecision\<close> lists
  \<open>pos\<close>, \<open>re\<close> and \<open>im\<close> only, so \<open>ang\<close> takes the default branch: parsing \<open>ang(z)\<close> succeeds
  with the tree \<open>ang (Variable 0)\<close> and leaves the precision at \<open>Single\<close>.
\<close>

theorem C4_ang_downgrades_counterexample:
  "Parse ''ang(z)'' FunctionParser_ctor =
     (None, \<lparr>m_usedVariables = {0}, m_supportedPrecision = Single, m_inputFunc = ''ang(z)'',
        m_parsedFunc = Some (Function ang_fn (Some (Variable 0)))\<rparr>)"
  by (rule Parse_ang)

text \<open>
  C4 as amended, with \<open>pos\<close>, \<open>re\<close>, \<open>im\<close> as the names that keep the precision.  Every parse
  starts from the cleared parser, whose precision is \<open>Extended\<close>.  Resolving \<open>pos\<close>, \<open>re\<close> or
  \<open>im\<close> leaves the parser as it is; resolving any of the other ten names sets the precision
  to \<open>Single\<close>.  Once the precision is \<open>Single\<close>, no operand scan and no sub-expression parse
  changes it.  After \<^verbatim>\<open>Parse\<close> the precision is \<open>Extended\<close> or \<open>Single\<close>; it is \<open>Single\<close> only if
  one of the ten names stands before a \<open>(\<close> in the stripped input, and when the parse has
  succeeded with a tree that holds a function other than \<open>pos\<close>, \<open>re\<close>, \<open>im\<close>, it is \<open>Single\<close>.
  Parsing \<open>sin(z)\<close> gives \<open>Single\<close>, parsing \<open>re(z)+im(c)\<close> gives \<open>Extended\<close>.
\<close>

theorem C4_precision_kept_by_pos_re_im_only:
  "SupportedPrecision (Clear st) = Extended \<and>
   Parse str st = Parse str FunctionParser_ctor \<and>
   (name \<in> {''pos'', ''re'', ''im''} \<longrightarrow> snd (GetFunctionNameApplyPrecision name offset st) = st) \<and>
   (name' \<in> precision_sensitive \<longrightarrow>
      SupportedPrecision (snd (GetFunctionNameApplyPrecision name' offset st)) = Single) \<and>
   (SupportedPrecision st' = Single \<longrightarrow>
      SupportedPrecision (snd (ScanEvaluated func offset len st')) = Single \<and>
      SupportedPrecision (snd (ParsePart func offset len st')) = Single) \<and>
   (SupportedPrecision (snd (Parse str st)) = Extended \<or>
    SupportedPrecision (snd (Parse str st)) = Single) \<and>
   (SupportedPrecision (snd (Parse str st)) = Single \<longrightarrow>
      calls_precision_sensitive (strip_whitespace str)) \<and>
   (fst (Parse str st) = None \<longrightarrow>
      (\<exists>tree. PseudoCode (snd (Parse str st)) = Some tree \<and>
         (function_names tree \<subseteq> {pos_fn, re_fn, im_fn} \<or>
          SupportedPrecision (snd (Parse str st)) = Single))) \<and>
   SupportedPrecision (snd (Parse ''sin(z)'' st)) = Single \<and>
   SupportedPrecision (snd (Parse ''re(z)+im(c)'' st)) = Extended"
proof -
  let ?input = "strip_whitespace str"
  let ?st1 = "snd (ParsePart ?input 0 (length ?input) (Clear st))"
  have fresh: "SupportedPrecision (Clear st) = Extended"
    by (simp add: SupportedPrecision_def Clear_def)
  have stays: "SupportedPrecision (snd (ScanEvaluated func offset len st')) = Single \<and>
      SupportedPrecision (snd (ParsePart func offset len st')) = Single"
    if "SupportedPrecision st' = Single"
    using that scan_step_rec(1) [of st' func offset len] scan_step_rec(2) [of st' func offset len]
    by (auto simp: scan_step_def SupportedPrecision_def)
  have "scan_step (Clear st) ?st1" by (rule scan_step_rec)
  then have two: "SupportedPrecision (snd (Parse str st)) = Extended \<or>
      SupportedPrecision (snd (Parse str st)) = Single"
    by (auto simp: SupportedPrecision_def Parse_precision scan_step_def Clear_def)
  have textual: "calls_precision_sensitive ?input"
    if "SupportedPrecision (snd (Parse str st)) = Single"
    using that precision_rec(2) [of ?input 0 "length ?input" "Clear st"]
    by (auto simp: SupportedPrecision_def Parse_precision Clear_def)
  have tree: "\<exists>tree. PseudoCode (snd (Parse str st)) = Some tree \<and>
      (function_names tree \<subseteq> {pos_fn, re_fn, im_fn} \<or>
       SupportedPrecision (snd (Parse str st)) = Single)"
    if "fst (Parse str st) = None"
    using Parse_success [OF that] by (auto simp: PseudoCode_def SupportedPrecision_def tracked_def)
  show ?thesis
    using fresh stays two textual tree Parse_fresh [of str st]
      GetFunctionNameApplyPrecision_safe [of name offset st]
      GetFunctionNameApplyPrecision_sensitive [of name' offset st]
    by (simp add: SupportedPrecision_def Parse_sin Parse_re_plus_im)
qed

theorem C4_precision_witness:
  "''re'' \<in> {''pos'', ''re'', ''im''} \<and>
   snd (GetFunctionNameApplyPrecision ''re'' 0 FunctionParser_ctor) = FunctionParser_ctor \<and>
   ''sin'' \<in> precision_sensitive \<and>
   SupportedPrecision (snd (GetFunctionNameApplyPrecision ''sin'' 0 FunctionParser_ctor)) = Single \<and>
   SupportedPrecision (FunctionParser_ctor\<lparr>m_supportedPrecision := Single\<rparr>) = Single \<and>
   SupportedPrecision
     (snd (ScanEvaluated ''re(z)'' 0 5 (FunctionParser_ctor\<lparr>m_supportedPrecision := Single\<rparr>))) = Single \<and>
   SupportedPrecision (snd (Parse ''sin(z)'' FunctionParser_ctor)) = Single \<and>
   calls_precision_sensitive (strip_whitespace ''sin(z)'') \<and>
   fst (Parse ''sin(z)'' FunctionParser_ctor) = None \<and>
   PseudoCode (snd (Parse ''sin(z)'' FunctionParser_ctor)) = Some (Function sin_fn (Some (Variable 0)))"
  using C4_precision_kept_by_pos_re_im_only [where st = FunctionParser_ctor and name = "''re''"
      and name' = "''sin''" and offset = 0 and str = "''sin(z)''"
      and st' = "FunctionParser_ctor\<lparr>m_supportedPrecision := Single\<rparr>" and func = "''re(z)''" and len = 5]
  by (simp add: precision_sensitive_def SupportedPrecision_def PseudoCode_def Parse_sin)

subsection \<open>C5: left-associative folding, tier by tier\<close>

lemma Parse_two_pow_three_pow_two:
  "Parse ''2^3^2'' st =
     (None, \<lparr>m_usedVariables = {}, m_supportedPrecision = Extended, m_inputFunc = ''2^3^2'',
        m_parsedFunc = Some (Operator pow_op 2
          (Some (Operator pow_op 2 (Some (Constant (Complex 2 0))) (Some (Constant (Complex 3 0)))))
          (Some (Constant (Complex 2 0))))\<rparr>)"
  by (simp add: run_defs)

lemma Parse_one_plus_two_times_three:
  "Parse ''1+2*3'' st =
     (None, \<lparr>m_usedVariables = {}, m_supportedPrecision = Extended, m_inputFunc = ''1+2*3'',
        m_parsedFunc = Some (Operator add_op 0 (Some (Constant (Complex 1 0)))
          (Some (Operator mul_op 1 (Some (Constant (Complex 2 0))) (Some (Constant (Complex 3 0))))))\<rparr>)"
  by (simp add: run_defs)

lemma Parse_braced_sum_plus_three:
  "Parse ''(1+2)+3'' st =
     (Some (FuncParseExcept EmptyFunction 0),
      \<lparr>m_usedVariables = {}, m_supportedPrecision = Extended, m_inputFunc = [],
        m_parsedFunc = None\<rparr>)"
  by (simp add: run_defs)

lemma Parse_braced_pow_pow_two:
  "Parse ''(2^3)^2'' st =
     (Some (FuncParseExcept EmptyFunction 0),
      \<lparr>m_usedVariables = {}, m_supportedPrecision = Extended, m_inputFunc = [],
        m_parsedFunc = None\<rparr>)"
  by (simp add: run_defs)

text \<open>
  C5 says that the three passes, highest tier first, fold all operators of one tier to the
  left, \<open>pow\<close> included.  The reducer does so when no operand is an operator node: a chain of
  any length whose operators all have the tier \<open>p\<close> reduces to the tree nested to the left,
  and of two operators in a row the second becomes the root unless its tier is the higher
  one; \<open>2^3^2\<close> parses to \<open>pow (pow 2 3) 2\<close>, whose value is \<^verbatim>\<open>std::pow(std::pow(2, 3), 2)\<close>
  as the library computes it, and \<open>1+2*3\<close> parses to \<open>add 1 (mul 2 3)\<close>, whose value is 7.
  The test of the passes looks at the node type and the tier only, so an operand that is a
  finished operator node is taken for a pending operator: a chain of tier \<open>p\<close> whose first
  operand is an operator node of tier \<open>p\<close> makes the reducer throw the empty-function error
  instead of the tree nested to the left.  \<open>(1+2)+3\<close> and \<open>(2^3)^2\<close> fail in this way.
\<close>

theorem C5_fold_left_fails_on_parenthesised_operand:
  "(is_operand a \<and> list_all (\<lambda>(name, x). is_operand x) rest \<and> (p = 0 \<or> p = 1 \<or> p = 2) \<longrightarrow>
      Reduce offset len (a # chain_tail p rest) False = Inr (left_fold p a rest)) \<and>
   (is_operand a \<and> is_operand b \<and> is_operand c \<longrightarrow>
      Reduce offset len
        [a, Operator n1 (tier n1) None None, b, Operator n2 (tier n2) None None, c] False =
      Inr (if tier n2 \<le> tier n1
           then Operator n2 (tier n2) (Some (Operator n1 (tier n1) (Some a) (Some b))) (Some c)
           else Operator n1 (tier n1) (Some a) (Some (Operator n2 (tier n2) (Some b) (Some c))))) \<and>
   (list_all (\<lambda>(name, x). is_operand x) rest \<and> (p = 0 \<or> p = 1 \<or> p = 2) \<longrightarrow>
      Reduce offset len (Operator n p lhs rhs # chain_tail p rest) False =
      Inl (FuncParseExcept EmptyFunction 0)) \<and>
   fst (Parse ''(1+2)+3'' st) = Some (FuncParseExcept EmptyFunction 0) \<and>
   fst (Parse ''(2^3)^2'' st) = Some (FuncParseExcept EmptyFunction 0) \<and>
   PseudoCode (snd (Parse ''2^3^2'' st)) =
     Some (Operator pow_op 2
       (Some (Operator pow_op 2 (Some (Constant (Complex 2 0))) (Some (Constant (Complex 3 0)))))
       (Some (Constant (Complex 2 0)))) \<and>
   (\<exists>ev. FunctionEvaluator_ctor (complex_double lib) (snd (Parse ''2^3^2'' st)) = Some (Inr ev) \<and>
      call ev = Some (c_pow lib (c_pow lib (Complex 2 0) (Complex 3 0)) (Complex 2 0))) \<and>
   PseudoCode (snd (Parse ''1+2*3'' st)) =
     Some (Operator add_op 0 (Some (Constant (Complex 1 0)))
       (Some (Operator mul_op 1 (Some (Constant (Complex 2 0))) (Some (Constant (Complex 3 0)))))) \<and>
   (\<exists>ev. FunctionEvaluator_ctor (complex_double lib) (snd (Parse ''1+2*3'' st)) = Some (Inr ev) \<and>
      call ev = Some (Complex 7 0))"
proof -
  have chain: "Reduce offset len (a # chain_tail p rest) False = Inr (left_fold p a rest)"
    if "is_operand a \<and> list_all (\<lambda>(name, x). is_operand x) rest \<and> (p = 0 \<or> p = 1 \<or> p = 2)"
    using that by (intro Reduce_chain) simp_all
  have first: "Reduce offset len (Operator n p lhs rhs # chain_tail p rest) False =
      Inl (FuncParseExcept EmptyFunction 0)"
    if "list_all (\<lambda>(name, x). is_operand x) rest \<and> (p = 0 \<or> p = 1 \<or> p = 2)"
    using that by (intro Reduce_operator_first) simp_all
  have pow: "\<exists>ev. FunctionEvaluator_ctor (complex_double lib) (snd (Parse ''2^3^2'' st)) = Some (Inr ev) \<and>
      call ev = Some (c_pow lib (c_pow lib (Complex 2 0) (Complex 3 0)) (Complex 2 0))"
    by (simp add: Parse_two_pow_three_pow_two eval_defs)
  have mul: "\<exists>ev. FunctionEvaluator_ctor (complex_double lib) (snd (Parse ''1+2*3'' st)) = Some (Inr ev) \<and>
      call ev = Some (Complex 7 0)"
    by (simp add: Parse_one_plus_two_times_three eval_defs complex_eq_iff)
  show ?thesis
    using Reduce_three [of a b c offset len n1 n2] chain first pow mul
    by (simp add: Parse_two_pow_three_pow_two Parse_one_plus_two_times_three PseudoCode_def
        Parse_braced_sum_plus_three Parse_braced_pow_pow_two
        del: chain_tail_simps left_fold_simps)
qed

theorem C5_fold_left_witness:
  "is_operand (Constant 2) \<and> is_operand (Constant 3) \<and> is_operand (Function sin_fn None) \<and>
   list_all (\<lambda>(name, x). is_operand x) [(pow_op, Constant 3), (pow_op, Constant 2)] \<and>
   Reduce 0 5 (Constant 2 # chain_tail 2 [(pow_op, Constant 3), (pow_op, Constant 2)]) False =
     Inr (Operator pow_op 2 (Some (Operator pow_op 2 (Some (Constant 2)) (Some (Constant 3))))
       (Some (Constant 2))) \<and>
   Reduce 0 5 [Constant 2, Operator sub_op (tier sub_op) None None, Constant 3,
       Operator add_op (tier add_op) None None, Function sin_fn None] False =
     Inr (Operator add_op 0 (Some (Operator sub_op 0 (Some (Constant 2)) (Some (Constant 3))))
       (Some (Function sin_fn None))) \<and>
   Reduce 0 5 (Operator pow_op 2 (Some (Constant 2)) (Some (Constant 3)) #
       chain_tail 2 [(pow_op, Constant 3), (pow_op, Constant 2)]) False =
     Inl (FuncParseExcept EmptyFunction 0)"
  using C5_fold_left_fails_on_parenthesised_operand [where a = "Constant 2" and b = "Constant 3"
      and c = "Function sin_fn None" and ?n1.0 = sub_op and ?n2.0 = add_op and offset = 0 and len = 5
      and p = 2 and rest = "[(pow_op, Constant 3), (pow_op, Constant 2)]"
      and n = pow_op and lhs = "Some (Constant 2)" and rhs = "Some (Constant 3)"]
  by simp

subsection \<open>C6: an opening parenthesis that is never closed\<close>

lemma CountBetweenBraces_loop_error:
  "CountBetweenBraces_loop func offset len braceCntr j = Inl e \<Longrightarrow> e = FuncParseExcept OpenBraces offset"
proof (induction func offset len braceCntr j rule: CountBetweenBraces_loop.induct)
  case (1 func offset len braceCntr j)
  from "1.prems" show ?case
    by (subst (asm) CountBetweenBraces_loop.simps) (use "1.IH" in \<open>auto split: if_splits\<close>)
qed

lemma CountBetweenBraces_error:
  "CountBetweenBraces func offset len = Inl e \<Longrightarrow> e = FuncParseExcept OpenBraces offset"
  unfolding CountBetweenBraces_def by (rule CountBetweenBraces_loop_error)

lemma ScanEvaluated_open_brace:
  assumes "CHR ''('' = char_at func offset" "CountBetweenBraces func (offset + 1) len = Inl e"
  shows "ScanEvaluated func offset len st = (Inl (FuncParseExcept OpenBraces (offset + 1)), st)"
  using assms CountBetweenBraces_error [OF assms(2)]
  by (subst ScanEvaluated.simps) simp

text \<open>
  C6 says that an unclosed opening parenthesis makes \<^verbatim>\<open>Parse\<close> fail with the open-braces
  error at the offset of that parenthesis.  The brace matcher is handed the offset after
  the parenthesis and throws with the offset it was handed: whenever the operand scanner
  stands on a \<open>(\<close> at \<open>offset\<close> and the matcher fails, the error carries \<open>offset + 1\<close>.  On
  \<open>(z+1\<close> the error carries offset 1, and the parenthesis is at offset 0.
\<close>

theorem C6_open_brace_offset_is_one_past:
  "(CHR ''('' = char_at func offset \<and> CountBetweenBraces func (offset + 1) len = Inl e \<longrightarrow>
      ScanEvaluated func offset len st = (Inl (FuncParseExcept OpenBraces (offset + 1)), st)) \<and>
   fst (Parse ''(z+1'' FunctionParser_ctor) = Some (FuncParseExcept OpenBraces 1) \<and>
   char_at ''(z+1'' 0 = CHR ''('' \<and>
   fst (Parse ''(z+1'' FunctionParser_ctor) \<noteq> Some (FuncParseExcept OpenBraces 0)"
  using ScanEvaluated_open_brace [of func offset len e st]
  by (simp add: Parse_open_brace char_at_def)

theorem C6_open_brace_witness:
  "CHR ''('' = char_at ''(z+1'' 0 \<and>
   CountBetweenBraces ''(z+1'' (0 + 1) 4 = Inl (FuncParseExcept OpenBraces 1) \<and>
   ScanEvaluated ''(z+1'' 0 4 FunctionParser_ctor =
     (Inl (FuncParseExcept OpenBraces (0 + 1)), FunctionParser_ctor)"
  using C6_open_brace_offset_is_one_past [where func = "''(z+1''" and offset = 0 and len = 4
      and e = "FuncParseExcept OpenBraces 1" and st = FunctionParser_ctor]
  by (simp add: char_defs scan_defs)

subsection \<open>C7: names that are neither a function call nor a variable\<close>

lemma Parse_x:
  "Parse ''x'' st =
     (Some (FuncParseExcept UnexpectedSymbol 1),
      \<lparr>m_usedVariables = {}, m_supportedPrecision = Extended, m_inputFunc = [],
        m_parsedFunc = None\<rparr>)"
  by (simp add: run_defs)

lemma Parse_scans_twelve_plus_zz: "Parse_scans ''12+zz'' FunctionParser_ctor 3 2 FunctionParser_ctor"
proof -
  let ?f = "''12+zz''"
  let ?st = FunctionParser_ctor
  have strip: "strip_whitespace ?f = ?f"
    by (simp add: strip_whitespace_def isspace_def code_def)
  have len: "length ?f = 5" by simp
  have 1: "calls (ParsePart_call ?f 0 5 ?st) (Tokenize_call ?f 0 5 0 True [] ?st)"
    by (rule calls.token_loop) simp
  have 2: "calls (Tokenize_call ?f 0 5 0 True [] ?st)
      (Tokenize_call ?f 0 5 2 False ([] @ [Constant (Complex 12 0)]) ?st)"
    by (rule calls.after_operand) (simp_all add: ScanEvaluated.simps char_defs scan_defs)
  have 3: "calls (Tokenize_call ?f 0 5 2 False ([] @ [Constant (Complex 12 0)]) ?st)
      (Tokenize_call ?f 0 5 3 True (([] @ [Constant (Complex 12 0)]) @ [Operator add_op 0 None None]) ?st)"
    by (rule calls.after_operator) (simp_all add: char_defs scan_defs)
  have 4: "calls (Tokenize_call ?f 0 5 3 True (([] @ [Constant (Complex 12 0)]) @ [Operator add_op 0 None None]) ?st)
      (ScanEvaluated_call ?f 3 2 ?st)"
    using calls.operand [of 3 0 5 ?f _ ?st] by simp
  from 1 2 3 4 have "rtranclp calls (ParsePart_call ?f 0 5 ?st) (ScanEvaluated_call ?f 3 2 ?st)"
    by (meson rtranclp.rtrancl_into_rtrancl rtranclp.rtrancl_refl)
  then show ?thesis
    by (simp only: Parse_scans_def strip Clear_fresh len)
qed

lemma Parse_one_plus_z1q:
  "Parse ''1+z1q'' st =
     (Some (FuncParseExcept OperatorExpected 3),
      \<lparr>m_usedVariables = {0}, m_supportedPrecision = Extended, m_inputFunc = [],
        m_parsedFunc = None\<rparr>)"
  by (simp add: run_defs)

lemma Parse_one_plus_zz:
  "Parse ''1+zz'' st =
     (Some (FuncParseExcept UnexpectedSymbol 3),
      \<lparr>m_usedVariables = {}, m_supportedPrecision = Extended, m_inputFunc = [],
        m_parsedFunc = None\<rparr>)"
  by (simp add: run_defs)

text \<open>
  C7 says that a name which is not followed by \<open>(\<close> and is not \<open>i\<close>, \<open>c\<close> or a valid \<open>z\<close> form
  makes \<^verbatim>\<open>Parse\<close> fail with the unknown-symbol kind at the offset of the name's first
  character.  All three throws of that branch of \<^verbatim>\<open>ScanEvaluated\<close> construct the
  unexpected-symbol kind: on \<open>x\<close> the error is unexpected-symbol, with offset 1.  Away from the
  start of the input the scanner bounds the name by \<open>length - offset\<close>, where \<open>length\<close> is
  already the remaining length, and may cut it short: of \<open>z1q\<close> in \<open>1+z1q\<close> it reads \<open>z\<close>, a
  valid variable, and the parse fails with an operator-expected error at offset 3; of \<open>zz\<close>
  in \<open>1+zz\<close> it reads nothing, and the error is unexpected-symbol with offset 3, where the
  name starts at offset 2.
\<close>

theorem C7_unknown_name_counterexample:
  "fst (Parse ''x'' FunctionParser_ctor) = Some (FuncParseExcept UnexpectedSymbol 1) \<and>
   fst (Parse ''x'' FunctionParser_ctor) \<noteq> Some (FuncParseExcept UnknownSymbol 0) \<and>
   fst (Parse ''1+z1q'' FunctionParser_ctor) = Some (FuncParseExcept OperatorExpected 3) \<and>
   fst (Parse ''1+zz'' FunctionParser_ctor) = Some (FuncParseExcept UnexpectedSymbol 3)"
  by (simp add: Parse_x Parse_one_plus_z1q Parse_one_plus_zz)

text \<open>
  C7 as amended, with the unexpected-symbol kind, for a name that the scanner reads in full.
  Whenever the operand scanner stands on a letter and reads in full a name that is not
  followed by \<open>(\<close> and is not \<open>i\<close>, \<open>c\<close> or a valid \<open>z\<close> form, the name it cuts off is that name,
  it throws an unexpected-symbol error and leaves the parser unchanged, and a \<^verbatim>\<open>Parse\<close>
  during which that call is made, anywhere in the input, fails with that error.  For a name
  that begins with \<open>z\<close> the offset is that of the name's first character; for any other name
  the code computes \<open>offset + 1 - name.length()\<close>, one more than that.  A name at the start of
  the stripped input is always read in full: \<^verbatim>\<open>Parse\<close> fails with that error and leaves the
  cleared parser behind.
\<close>

theorem C7_bad_name_is_unexpected_symbol:
  "(reads_whole_name func offset len name \<and>
    char_at func (offset + length name) \<noteq> CHR ''('' \<and>
    name \<noteq> ''i'' \<and> name \<noteq> ''c'' \<and> \<not> valid_z_name name \<longrightarrow>
    take (CountNameLength func offset (size_t_sub len offset)) (drop offset func) = name \<and>
    ScanEvaluated func offset len st =
      (Inl (FuncParseExcept UnexpectedSymbol (if hd name = CHR ''z'' then offset else offset + 1)), st) \<and>
    (func = strip_whitespace str \<and> Parse_scans str st0 offset len st \<longrightarrow>
     Parse str st0 =
       (Some (FuncParseExcept UnexpectedSymbol (if hd name = CHR ''z'' then offset else offset + 1)), st))) \<and>
   (strip_whitespace str' = nm @ rest \<and> nm \<noteq> [] \<and> IsLetter (hd nm) \<and> list_all IsNamePart nm \<and>
    \<not> IsNamePart (char_at (nm @ rest) (length nm)) \<and>
    char_at (nm @ rest) (length nm) \<noteq> CHR ''('' \<and> length (nm @ rest) < 2 ^ 64 \<and>
    nm \<noteq> ''i'' \<and> nm \<noteq> ''c'' \<and> \<not> valid_z_name nm \<longrightarrow>
    Parse str' st' =
      (Some (FuncParseExcept UnexpectedSymbol (if hd nm = CHR ''z'' then 0 else 1)),
       FunctionParser_ctor))"
proof (intro conjI impI)
  assume a: "reads_whole_name func offset len name \<and>
    char_at func (offset + length name) \<noteq> CHR ''('' \<and>
    name \<noteq> ''i'' \<and> name \<noteq> ''c'' \<and> \<not> valid_z_name name"
  then show "take (CountNameLength func offset (size_t_sub len offset)) (drop offset func) = name"
    by (elim conjE) (rule reads_whole_name_scanned)
  from a show scan: "ScanEvaluated func offset len st =
      (Inl (FuncParseExcept UnexpectedSymbol (if hd name = CHR ''z'' then offset else offset + 1)), st)"
    by (elim conjE, intro ScanEvaluated_reads_invalid_name) assumption+
  assume "func = strip_whitespace str \<and> Parse_scans str st0 offset len st"
  with scan show "Parse str st0 =
      (Some (FuncParseExcept UnexpectedSymbol (if hd name = CHR ''z'' then offset else offset + 1)), st)"
    by (elim conjE, intro Parse_scans_thrown) simp_all
next
  assume "strip_whitespace str' = nm @ rest \<and> nm \<noteq> [] \<and> IsLetter (hd nm) \<and> list_all IsNamePart nm \<and>
    \<not> IsNamePart (char_at (nm @ rest) (length nm)) \<and>
    char_at (nm @ rest) (length nm) \<noteq> CHR ''('' \<and> length (nm @ rest) < 2 ^ 64 \<and>
    nm \<noteq> ''i'' \<and> nm \<noteq> ''c'' \<and> \<not> valid_z_name nm"
  then show "Parse str' st' =
      (Some (FuncParseExcept UnexpectedSymbol (if hd nm = CHR ''z'' then 0 else 1)),
       FunctionParser_ctor)"
    by (elim conjE, intro Parse_invalid_name [unfolded Clear_fresh]) assumption+
qed

theorem C7_bad_name_witness:
  "reads_whole_name ''12+zz'' 3 2 ''zz'' \<and>
   Parse_scans ''12+zz'' FunctionParser_ctor 3 2 FunctionParser_ctor \<and>
   ScanEvaluated ''12+zz'' 3 2 FunctionParser_ctor =
     (Inl (FuncParseExcept UnexpectedSymbol 3), FunctionParser_ctor) \<and>
   Parse ''12+zz'' FunctionParser_ctor =
     (Some (FuncParseExcept UnexpectedSymbol 3), FunctionParser_ctor) \<and>
   strip_whitespace ''xy + 1'' = ''xy'' @ ''+1'' \<and> list_all IsNamePart ''xy'' \<and>
   Parse ''xy + 1'' FunctionParser_ctor =
     (Some (FuncParseExcept UnexpectedSymbol 1), FunctionParser_ctor)"
  using C7_bad_name_is_unexpected_symbol [where func = "''12+zz''" and offset = 3 and len = 2
      and name = "''zz''" and st = FunctionParser_ctor and str = "''12+zz''"
      and ?st0.0 = FunctionParser_ctor and str' = "''xy + 1''" and nm = "''xy''"
      and rest = "''+1''" and st' = FunctionParser_ctor]
    Parse_scans_twelve_plus_zz
  by (simp add: reads_whole_name_def char_defs size_t_sub_def strip_whitespace_def valid_z_name_def)

subsection \<open>C8: the decimal suffix of \<open>z\<close>\<close>

lemma Parse_z1:
  "Parse ''z1'' st =
     (None, \<lparr>m_usedVariables = {1}, m_supportedPrecision = Extended, m_inputFunc = ''z1'',
        m_parsedFunc = Some (Variable 1)\<rparr>)"
  by (simp add: run_defs)

lemma Parse_z10:
  "Parse ''z10'' st =
     (None, \<lparr>m_usedVariables = {10}, m_supportedPrecision = Extended, m_inputFunc = ''z10'',
        m_parsedFunc = Some (Variable 10)\<rparr>)"
  by (simp add: run_defs)

lemma Parse_z01:
  "Parse ''z01'' st =
     (Some (FuncParseExcept UnexpectedSymbol 0),
      \<lparr>m_usedVariables = {}, m_supportedPrecision = Extended, m_inputFunc = [],
        m_parsedFunc = None\<rparr>)"
  by (simp add: run_defs)

lemma Parse_z_ten_digits:
  "Parse ''z1234567890'' st =
     (Some (FuncParseExcept UnexpectedSymbol 0),
      \<lparr>m_usedVariables = {}, m_supportedPrecision = Extended, m_inputFunc = [],
        m_parsedFunc = None\<rparr>)"
  by (simp add: run_defs)

text \<open>
  C8 says that a suffix of at most 10 digits with no leading zero is accepted.  The guard is
  \<^verbatim>\<open>name.length() > 10\<close>, and the name includes the \<open>z\<close>: the ten-digit suffix of
  \<open>z1234567890\<close> has no leading zero and is rejected with an unexpected-symbol error.
\<close>

theorem C8_ten_digit_suffix_counterexample:
  "fst (Parse ''z1234567890'' FunctionParser_ctor) = Some (FuncParseExcept UnexpectedSymbol 0) \<and>
   list_all IsDigit ''1234567890'' \<and> length ''1234567890'' = 10 \<and> hd ''1234567890'' \<noteq> CHR ''0''"
  by (simp add: Parse_z_ten_digits IsDigit_def code_def)

lemma Parse_z_digits_accepted:
  assumes "list_all IsDigit ds" "length ds \<le> 9" "ds = [] \<or> hd ds \<noteq> CHR ''0''"
  shows "Parse (CHR ''z'' # ds) st =
     (None, \<lparr>m_usedVariables = {decimal_value ds}, m_supportedPrecision = Extended,
        m_inputFunc = CHR ''z'' # ds, m_parsedFunc = Some (Variable (decimal_value ds))\<rparr>)"
proof -
  from assms have "valid_z_name (CHR ''z'' # ds)"
    by (cases ds) (auto simp: valid_z_name_def)
  from Parse_valid_z_name [OF this, of st] show ?thesis by simp
qed

lemma Parse_z_digits_rejected:
  assumes "list_all IsDigit ds" "(ds \<noteq> [] \<and> hd ds = CHR ''0'') \<or> 10 \<le> length ds"
    "length ds + 1 < 2 ^ 64"
  shows "Parse (CHR ''z'' # ds) st = (Some (FuncParseExcept UnexpectedSymbol 0), FunctionParser_ctor)"
proof -
  let ?name = "CHR ''z'' # ds"
  have parts: "list_all IsNamePart ?name"
    using assms(1) by (auto simp: list_all_iff IsNamePart_def IsLetter_def code_def)
  have strip: "strip_whitespace ?name = ?name @ []"
    using strip_whitespace_name [OF parts] by simp
  have invalid: "\<not> valid_z_name ?name"
    using assms(2) by (cases ds) (auto simp: valid_z_name_def)
  have "Parse ?name st =
      (Some (FuncParseExcept UnexpectedSymbol (if hd ?name = CHR ''z'' then 0 else 1)), Clear st)"
  proof (rule Parse_invalid_name [OF strip _ _ parts _ _ _ _ _ invalid])
    show "\<not> IsNamePart (char_at (?name @ []) (length ?name))"
      by (simp add: char_at_def IsNamePart_def IsLetter_def IsDigit_def code_def)
    show "char_at (?name @ []) (length ?name) \<noteq> CHR ''(''" by (simp add: char_at_def)
    show "length (?name @ []) < 2 ^ 64" using assms(3) by simp
    show "IsLetter (hd ?name)" by (simp add: IsLetter_def code_def)
  qed simp_all
  then show ?thesis by (simp add: Clear_fresh)
qed

text \<open>
  C8 as amended, with at most nine digits.  For every string \<open>ds\<close> of at most nine digits
  with no leading zero, \<open>z\<close> followed by \<open>ds\<close> parses to the variable whose index is the
  number \<open>ds\<close> denotes (0 for the empty suffix); the index is below \<open>10^9\<close>, so the \<^verbatim>\<open>int\<close> of
  the source does not overflow.  For every digit string with a leading zero or with ten or
  more digits, \<^verbatim>\<open>Parse\<close> fails with an unexpected-symbol error at offset 0.  In particular
  \<open>z1\<close> and \<open>z10\<close> give the indices 1 and 10, and \<open>z01\<close> fails.
\<close>

theorem C8_z_suffix_of_at_most_nine_digits:
  "(list_all IsDigit ds \<and> length ds \<le> 9 \<and> (ds = [] \<or> hd ds \<noteq> CHR ''0'') \<longrightarrow>
      fst (Parse (CHR ''z'' # ds) st) = None \<and>
      PseudoCode (snd (Parse (CHR ''z'' # ds) st)) = Some (Variable (decimal_value ds)) \<and>
      UsedVariables (snd (Parse (CHR ''z'' # ds) st)) = {decimal_value ds} \<and>
      0 \<le> decimal_value ds \<and> decimal_value ds < 10 ^ 9) \<and>
   (list_all IsDigit ds' \<and> ((ds' \<noteq> [] \<and> hd ds' = CHR ''0'') \<or> 10 \<le> length ds') \<and>
    length ds' + 1 < 2 ^ 64 \<longrightarrow>
      fst (Parse (CHR ''z'' # ds') st) = Some (FuncParseExcept UnexpectedSymbol 0)) \<and>
   PseudoCode (snd (Parse ''z1'' st)) = Some (Variable 1) \<and>
   PseudoCode (snd (Parse ''z10'' st)) = Some (Variable 10) \<and>
   fst (Parse ''z01'' st) = Some (FuncParseExcept UnexpectedSymbol 0)"
proof (intro conjI impI)
  assume a: "list_all IsDigit ds \<and> length ds \<le> 9 \<and> (ds = [] \<or> hd ds \<noteq> CHR ''0'')"
  then have p: "Parse (CHR ''z'' # ds) st =
     (None, \<lparr>m_usedVariables = {decimal_value ds}, m_supportedPrecision = Extended,
        m_inputFunc = CHR ''z'' # ds, m_parsedFunc = Some (Variable (decimal_value ds))\<rparr>)"
    by (intro Parse_z_digits_accepted) simp_all
  show "fst (Parse (CHR ''z'' # ds) st) = None"
    "PseudoCode (snd (Parse (CHR ''z'' # ds) st)) = Some (Variable (decimal_value ds))"
    "UsedVariables (snd (Parse (CHR ''z'' # ds) st)) = {decimal_value ds}"
    by (simp_all add: p PseudoCode_def UsedVariables_def)
  from a decimal_value_bound [of ds] have b: "0 \<le> decimal_value ds" "decimal_value ds < 10 ^ length ds"
    by simp_all
  show "0 \<le> decimal_value ds" by (rule b)
  have "(10 :: int) ^ length ds \<le> 10 ^ 9"
    using a by (intro power_increasing) simp_all
  with b show "decimal_value ds < 10 ^ 9" by linarith
next
  assume "list_all IsDigit ds' \<and> ((ds' \<noteq> [] \<and> hd ds' = CHR ''0'') \<or> 10 \<le> length ds') \<and>
    length ds' + 1 < 2 ^ 64"
  then have "Parse (CHR ''z'' # ds') st = (Some (FuncParseExcept UnexpectedSymbol 0), FunctionParser_ctor)"
    by (intro Parse_z_digits_rejected) simp_all
  then show "fst (Parse (CHR ''z'' # ds') st) = Some (FuncParseExcept UnexpectedSymbol 0)" by simp
qed (simp_all add: Parse_z1 Parse_z10 Parse_z01 PseudoCode_def)

theorem C8_z_suffix_witness:
  "list_all IsDigit ''123456789'' \<and> length ''123456789'' \<le> 9 \<and> hd ''123456789'' \<noteq> CHR ''0'' \<and>
   fst (Parse ''z123456789'' FunctionParser_ctor) = None \<and>
   PseudoCode (snd (Parse ''z123456789'' FunctionParser_ctor)) = Some (Variable 123456789) \<and>
   list_all IsDigit ''12345678901'' \<and> 10 \<le> length ''12345678901'' \<and>
   fst (Parse ''z12345678901'' FunctionParser_ctor) = Some (FuncParseExcept UnexpectedSymbol 0)"
  using C8_z_suffix_of_at_most_nine_digits [where ds = "''123456789''" and ds' = "''12345678901''"
      and st = FunctionParser_ctor]
  by (simp add: IsDigit_def code_def decimal_value_def digit_value_def)

subsection \<open>C9: \<open>re\<close> and \<open>im\<close>\<close>

text \<open>
  C9 says that for complex numbers \<open>re\<close> and \<open>im\<close> return the absolute value of the real and
  of the imaginary component with imaginary part zero, and that for a real \<open>t\<close> the
  function \<open>re\<close> returns \<open>\<bar>t\<bar>\<close> and \<open>im\<close> returns zero.  The complex overloads and the real
  \<open>im\<close> do so.  The real overload of \<open>re\<close> returns its argument unchanged, so it returns
  \<open>- 1\<close> on \<open>- 1\<close>, where the complex overload returns 1 on \<open>- 1 + 0i\<close>.
\<close>

theorem C9_re_im_overloads:
  "re_complex t = Complex \<bar>Re t\<bar> 0 \<and> im_complex t = Complex \<bar>Im t\<bar> 0 \<and> im_T x = 0 \<and>
   re_T x = x \<and> re_T (- 1) = - 1 \<and> re_T (- 1) \<noteq> \<bar>- 1\<bar> \<and> re_complex (Complex (- 1) 0) = Complex 1 0"
  by (simp add: re_complex_def im_complex_def im_T_def re_T_def)

subsection \<open>C10: the parser after a failed parse\<close>

lemma Parse_sin_dangling:
  "Parse ''sin(z)+'' st =
     (Some (FuncParseExcept DanglingOperator 6),
      \<lparr>m_usedVariables = {0}, m_supportedPrecision = Single, m_inputFunc = [],
        m_parsedFunc = None\<rparr>)"
  by (simp add: run_defs)

text \<open>
  C10 says that after \<^verbatim>\<open>Parse\<close> has thrown, the tree is gone, the set of used variable
  indices is empty and the precision is back at its initial level.  \<^verbatim>\<open>Parse\<close> clears the
  parser before it scans and has no handler that clears it again: on \<open>sin(z)+\<close> it throws a
  dangling-operator error at offset 6, and the parser is left with the variable index 0
  and the precision \<open>Single\<close> that the scan of \<open>sin(z)\<close> recorded.
\<close>

theorem C10_failed_parse_keeps_session_state_counterexample:
  "fst (Parse ''sin(z)+'' FunctionParser_ctor) = Some (FuncParseExcept DanglingOperator 6) \<and>
   UsedVariables (snd (Parse ''sin(z)+'' FunctionParser_ctor)) = {0} \<and>
   SupportedPrecision (snd (Parse ''sin(z)+'' FunctionParser_ctor)) = Single \<and>
   UsedVariables FunctionParser_ctor = {} \<and> SupportedPrecision FunctionParser_ctor = Extended"
  by (simp add: Parse_sin_dangling UsedVariables_def SupportedPrecision_def FunctionParser_ctor_def)

text \<open>
  C10 as amended.  If \<^verbatim>\<open>Parse\<close> throws, the tree accessor returns no node and the stored
  input is empty; the set of used variable indices and the precision are the ones that the
  scan of the stripped input had reached when it threw, and \<^verbatim>\<open>Clear\<close> resets them.
\<close>

theorem C10_failed_parse_leaves_no_tree:
  "fst (Parse str st) = Some e \<Longrightarrow>
   PseudoCode (snd (Parse str st)) = None \<and>
   m_inputFunc (snd (Parse str st)) = [] \<and>
   UsedVariables (snd (Parse str st)) =
     UsedVariables (snd (ParsePart (strip_whitespace str) 0 (length (strip_whitespace str))
       FunctionParser_ctor)) \<and>
   SupportedPrecision (snd (Parse str st)) =
     SupportedPrecision (snd (ParsePart (strip_whitespace str) 0 (length (strip_whitespace str))
       FunctionParser_ctor)) \<and>
   Clear (snd (Parse str st)) = FunctionParser_ctor"
  using Parse_failure [of str st e]
  by (simp add: PseudoCode_def UsedVariables_def SupportedPrecision_def Parse_usedVariables
      Parse_precision Clear_fresh)

theorem C10_failed_parse_witness:
  "fst (Parse ''sin(z)+'' FunctionParser_ctor) = Some (FuncParseExcept DanglingOperator 6) \<and>
   PseudoCode (snd (Parse ''sin(z)+'' FunctionParser_ctor)) = None \<and>
   m_inputFunc (snd (Parse ''sin(z)+'' FunctionParser_ctor)) = []"
  using C10_failed_parse_leaves_no_tree [of "''sin(z)+''" FunctionParser_ctor
      "FuncParseExcept DanglingOperator 6"]
  by (simp add: Parse_sin_dangling)

end
